theory Spec2Isabelle
  imports Complex_Main
begin

section \<open>The task list: \<open>src/todo-manager.ts\<close>\<close>

subsection \<open>Data\<close>

text \<open>
  A \<open>Todo\<close> as the interface of \<open>todo-manager.ts\<close> declares it. The TypeScript type of
  \<open>status\<close> is the union of three string literals, but the objects come from a tool
  call's JSON input or from the persisted file, and \<open>validate\<close> itself tests the field
  against the three literals at run time: so \<open>status\<close> is a string here.
  A \<open>char\<close> stands for one code unit of a JavaScript string below 256.
\<close>

record Todo =
  content :: string
  status :: string
  activeForm :: string

text \<open>
  \<open>TodoValidationError\<close>: the source has one error class and tells the cases apart by
  the message only. Each constructor is one message template of \<open>validate\<close>, with the
  values the template interpolates (the count, the 1-based task number, the status).
\<close>

datatype TodoValidationError =
    EmptyList
  | MultipleInProgress nat
  | ContentEmpty nat
  | ActiveFormEmpty nat
  | InvalidStatus nat string

subsection \<open>\<open>String.prototype.trim\<close>\<close>

text \<open>
  The white space and line terminators \<open>trim\<close> removes, among the code units below 256:
  TAB, LF, VT, FF, CR, SPACE and NBSP.
\<close>

definition is_js_space :: "char \<Rightarrow> bool" where
  "is_js_space c =
     (c = CHR 0x09 \<or> c = CHR 0x0A \<or> c = CHR 0x0B \<or> c = CHR 0x0C \<or> c = CHR 0x0D
      \<or> c = CHR '' '' \<or> c = CHR 0xA0)"

definition trim :: "string \<Rightarrow> string" where
  "trim s = rev (dropWhile is_js_space (rev (dropWhile is_js_space s)))"

text \<open>The test \<open>!s || s.trim() === ''\<close> that \<open>validate\<close> makes on both text fields.\<close>

definition blank :: "string \<Rightarrow> bool" where
  "blank s = (s = [] \<or> trim s = [])"

subsection \<open>\<open>TodoManager.validate\<close>\<close>

text \<open>
  The body of the callback of \<open>todos.forEach\<close>: three tests on one task, in the order
  of the source; \<open>index\<close> is the 0-based position. \<open>None\<close>: the callback returns
  without throwing.
\<close>

definition check_todo :: "nat \<Rightarrow> Todo \<Rightarrow> TodoValidationError option" where
  "check_todo index todo =
     (if blank (content todo) then Some (ContentEmpty (index + 1))
      else if blank (activeForm todo) then Some (ActiveFormEmpty (index + 1))
      else if status todo \<notin> set [''pending'', ''in_progress'', ''completed'']
        then Some (InvalidStatus (index + 1) (status todo))
      else None)"

text \<open>\<open>forEach\<close> from position \<open>index\<close> on: the first callback that throws ends the loop.\<close>

fun forEach_check :: "nat \<Rightarrow> Todo list \<Rightarrow> TodoValidationError option" where
  "forEach_check index [] = None"
| "forEach_check index (todo # rest) =
     (case check_todo index todo of
        Some e \<Rightarrow> Some e
      | None \<Rightarrow> forEach_check (Suc index) rest)"

definition inProgressCount :: "Todo list \<Rightarrow> nat" where
  "inProgressCount ts = length (filter (\<lambda>t. status t = ''in_progress'') ts)"

definition validate :: "Todo list \<Rightarrow> TodoValidationError + unit" where
  "validate ts =
     (if length ts = 0 then Inl EmptyList
      else if inProgressCount ts > 1 then Inl (MultipleInProgress (inProgressCount ts))
      else (case forEach_check 0 ts of Some e \<Rightarrow> Inl e | None \<Rightarrow> Inr ()))"

subsection \<open>JavaScript numbers in \<open>getStats\<close>\<close>

text \<open>
  \<open>getStats\<close> computes \<open>Math.round((completed / total) * 100)\<close> on IEEE 754 binary64
  numbers. The numbers that arise are finite, not negative and far inside the normal
  range, so a number is a pair \<open>(m, k)\<close> standing for \<open>m * 2 ^ k\<close>, and an operation is the
  exact result rounded to 53 significant bits, to nearest, ties to even. Subnormal
  numbers, overflow, signs and NaN are not modelled.
\<close>

type_synonym double = "nat \<times> int"

definition double_val :: "double \<Rightarrow> real" where
  "double_val x = of_nat (fst x) * 2 powi (snd x)"

text \<open>The number of binary digits of \<open>n\<close>.\<close>

fun bitlen :: "nat \<Rightarrow> nat" where
  "bitlen n = (if n = 0 then 0 else Suc (bitlen (n div 2)))"

declare bitlen.simps [simp del]

text \<open>The integer nearest to the fraction \<open>n / d\<close>, ties to even.\<close>

definition round_ties_even :: "nat \<Rightarrow> nat \<Rightarrow> nat" where
  "round_ties_even n d =
     (let q = n div d; r = n mod d
      in if 2 * r < d then q else if d < 2 * r then q + 1 else if even q then q else q + 1)"

text \<open>The exponent \<open>e\<close> with \<open>2 ^ e \<le> n / d < 2 ^ (e + 1)\<close>, for \<open>n\<close> and \<open>d\<close> positive.\<close>

definition binary_exponent :: "nat \<Rightarrow> nat \<Rightarrow> int" where
  "binary_exponent n d =
     (let g = int (bitlen n) - int (bitlen d)
      in if (if 0 \<le> g then d * 2 ^ nat g \<le> n else d \<le> n * 2 ^ nat (- g)) then g else g - 1)"

text \<open>The fraction \<open>n / d\<close> rounded to a binary64 number: 53 bits from the leading one.\<close>

definition to_double :: "nat \<Rightarrow> nat \<Rightarrow> double" where
  "to_double n d =
     (if n = 0 then (0, 0)
      else let k = binary_exponent n d - 52
           in (if k \<le> 0 then round_ties_even (n * 2 ^ nat (- k)) d
               else round_ties_even n (d * 2 ^ nat k), k))"

text \<open>\<open>a / b\<close> for two integers below \<open>2 ^ 53\<close> (array lengths), \<open>b\<close> positive.\<close>

definition js_divide :: "nat \<Rightarrow> nat \<Rightarrow> double" where
  "js_divide a b = to_double a b"

text \<open>\<open>x * n\<close> for a number \<open>x\<close> and an integer \<open>n\<close> below \<open>2 ^ 53\<close>.\<close>

definition js_times :: "double \<Rightarrow> nat \<Rightarrow> double" where
  "js_times x n =
     (if 0 \<le> snd x then to_double (fst x * n * 2 ^ nat (snd x)) 1
      else to_double (fst x * n) (2 ^ nat (- snd x)))"

text \<open>\<open>Math.round\<close>: the integer nearest to \<open>x\<close>, a tie going up; that is \<open>floor (x + 1/2)\<close>.\<close>

definition Math_round :: "double \<Rightarrow> nat" where
  "Math_round x =
     (if 0 \<le> snd x then fst x * 2 ^ nat (snd x)
      else (2 * fst x + 2 ^ nat (- snd x)) div (2 * 2 ^ nat (- snd x)))"

subsection \<open>The manager and its file\<close>

text \<open>
  What \<open>load\<close> finds at a path: no file (\<open>files\<close> gives \<open>None\<close>); a file for which
  \<open>readFileSync\<close> or \<open>JSON.parse\<close> throws, or whose document is \<open>null\<close> (\<open>Unreadable\<close>);
  or a document whose \<open>todos\<close> property is the given array (\<open>Document\<close>).
  \<open>writable\<close> says whether \<open>writeFileSync\<close> succeeds at a path.
\<close>

datatype file_data = Unreadable | Document "Todo list"

record filesystem =
  files :: "string \<Rightarrow> file_data option"
  writable :: "string \<Rightarrow> bool"

record TodoManager =
  todos :: "Todo list"
  todoFile :: string

text \<open>\<open>load\<close>: whatever array the document holds becomes \<open>this.todos\<close>; \<open>catch\<close> resets it.\<close>

definition load :: "filesystem \<Rightarrow> TodoManager \<Rightarrow> TodoManager" where
  "load fs m =
     (case files fs (todoFile m) of
        None \<Rightarrow> m
      | Some Unreadable \<Rightarrow> m\<lparr>todos := []\<rparr>
      | Some (Document parsed_todos) \<Rightarrow> m\<lparr>todos := parsed_todos\<rparr>)"

text \<open>The constructor: the field initialiser \<open>todos = []\<close>, the path, then \<open>load\<close>.\<close>

definition new_TodoManager :: "string \<Rightarrow> filesystem \<Rightarrow> TodoManager" where
  "new_TodoManager path fs = load fs \<lparr>todos = [], todoFile = path\<rparr>"

text \<open>\<open>save\<close>: a failed write is caught and logged, and leaves the file as it was.\<close>

definition save :: "TodoManager \<Rightarrow> filesystem \<Rightarrow> filesystem" where
  "save m fs =
     (if writable fs (todoFile m)
      then fs\<lparr>files := (files fs)(todoFile m \<mapsto> Document (todos m))\<rparr>
      else fs)"

text \<open>
  \<open>update\<close>: \<open>validate\<close> throws before the assignment, so the error leaves the manager
  and the file untouched. \<open>display\<close> only prints to the console, which is not kept.
\<close>

definition update ::
  "Todo list \<Rightarrow> TodoManager \<times> filesystem
     \<Rightarrow> (TodoValidationError + unit) \<times> TodoManager \<times> filesystem" where
  "update ts st =
     (case validate ts of
        Inl e \<Rightarrow> (Inl e, st)
      | Inr u \<Rightarrow>
          (let m = (fst st)\<lparr>todos := ts\<rparr>
           in (Inr (), m, save m (snd st))))"

definition getAll :: "TodoManager \<Rightarrow> Todo list" where
  "getAll m = todos m"

definition getByStatus :: "string \<Rightarrow> TodoManager \<Rightarrow> Todo list" where
  "getByStatus s m = filter (\<lambda>t. status t = s) (todos m)"

record Stats =
  total :: nat
  pending :: nat
  inProgress :: nat
  completed :: nat
  progress :: nat

definition getStats :: "TodoManager \<Rightarrow> Stats" where
  "getStats m =
     (let total = length (todos m);
          pending = length (getByStatus ''pending'' m);
          inProgress = length (getByStatus ''in_progress'' m);
          completed = length (getByStatus ''completed'' m);
          progress = (if total > 0 then Math_round (js_times (js_divide completed total) 100)
                      else 0)
      in \<lparr>total = total, pending = pending, inProgress = inProgress,
          completed = completed, progress = progress\<rparr>)"

section \<open>The tool loops\<close>

subsection \<open>Messages\<close>

text \<open>
  The input of a tool call is JSON of any shape. \<open>executeTodoWrite\<close> casts it to a
  \<open>TodoList\<close> and reads \<open>input.todos\<close>: \<open>TodoListInput\<close> is an input whose \<open>todos\<close> is an
  array of tasks; \<open>ZeroLengthInput\<close> is JSON text whose \<open>todos\<close> is no array but has a
  \<open>length\<close> of 0 (the empty string, an object with that property); \<open>OtherInput\<close> is any
  other JSON text.
\<close>

datatype json_input = TodoListInput "Todo list" | ZeroLengthInput string | OtherInput string

text \<open>A \<open>tool_use\<close> block: \<open>tu_id\<close>, \<open>tu_name\<close> and \<open>tu_input\<close> are its \<open>id\<close>, \<open>name\<close>, \<open>input\<close>.\<close>

record ToolUseBlock =
  tu_id :: string
  tu_name :: string
  tu_input :: json_input

datatype ContentBlock = TextBlock string | ToolUse ToolUseBlock

datatype stop_reason = end_turn | max_tokens | stop_sequence | tool_use

text \<open>The part of the API's answer the loops read.\<close>

record Response =
  resp_content :: "ContentBlock list"
  resp_stop_reason :: stop_reason

text \<open>
  A \<open>tool_result\<close> block as both loops build it: \<open>tool_use_id\<close> and the content. No
  loop of the two sets \<open>is_error\<close>, so the block has no such field.
\<close>

record 'c ToolResultBlockParam =
  tool_use_id :: string
  result_content :: 'c

text \<open>A message of the conversation: its role and content in one constructor.\<close>

datatype 'c MessageParam =
    UserText string
  | AssistantBlocks "ContentBlock list"
  | UserToolResults "'c ToolResultBlockParam list"

text \<open>
  A value thrown and caught as \<open>error\<close>: the orchestrator's own \<open>Error\<close> for a name that
  is not registered, or what the API client throws (its message).
\<close>

datatype js_error = AgentNotFound string | ApiError string

text \<open>\<open>content.filter(block => block.type === 'tool_use')\<close>.\<close>

fun tool_use_blocks :: "ContentBlock list \<Rightarrow> ToolUseBlock list" where
  "tool_use_blocks [] = []"
| "tool_use_blocks (TextBlock t # bs) = tool_use_blocks bs"
| "tool_use_blocks (ToolUse u # bs) = u # tool_use_blocks bs"

text \<open>\<open>content.find(block => block.type === 'tool_use')\<close>.\<close>

fun find_tool_use :: "ContentBlock list \<Rightarrow> ToolUseBlock option" where
  "find_tool_use [] = None"
| "find_tool_use (TextBlock t # bs) = find_tool_use bs"
| "find_tool_use (ToolUse u # bs) = Some u"

text \<open>\<open>content.find(block => block.type === 'text')\<close>.\<close>

fun find_text :: "ContentBlock list \<Rightarrow> string option" where
  "find_text [] = None"
| "find_text (TextBlock t # bs) = Some t"
| "find_text (ToolUse u # bs) = find_text bs"

subsection \<open>\<open>runAgentWithTodos\<close>\<close>

text \<open>
  The string \<open>executeTodoWrite\<close> returns, by its template: the success line with
  \<open>stats.completed\<close>, \<open>stats.total\<close> and \<open>stats.progress\<close>, the error line with the
  validation error's message, or the error line for any other thrown value. When
  \<open>input.todos\<close> is not an array, \<open>validate\<close> still reads its \<open>length\<close> first: a length of
  0 throws the empty-list error, anything else ends in a \<open>TypeError\<close> (no \<open>length\<close> to
  read, or no \<open>filter\<close> to call). Neither reaches the assignment in \<open>update\<close>.
\<close>

datatype reply_text = UpdatedLine nat nat nat | ErrorLine TodoValidationError | OtherErrorLine

definition executeTodoWrite ::
  "json_input \<Rightarrow> TodoManager \<times> filesystem \<Rightarrow> reply_text \<times> TodoManager \<times> filesystem" where
  "executeTodoWrite input st =
     (case input of
        OtherInput j \<Rightarrow> (OtherErrorLine, st)
      | ZeroLengthInput j \<Rightarrow> (ErrorLine EmptyList, st)
      | TodoListInput ts \<Rightarrow>
          (case update ts st of
             (Inl e, st') \<Rightarrow> (ErrorLine e, st')
           | (Inr u, st') \<Rightarrow>
               (let stats = getStats (fst st')
                in (UpdatedLine (completed stats) (total stats) (progress stats), st'))))"

text \<open>
  The \<open>for\<close> loop over \<open>toolUses\<close>: a block named \<open>todo_write\<close> is executed and its result
  pushed; the \<open>if\<close> has no \<open>else\<close>, so a block of any other name is passed over.
\<close>

fun run_todo_tools ::
  "ToolUseBlock list \<Rightarrow> TodoManager \<times> filesystem
     \<Rightarrow> reply_text ToolResultBlockParam list \<times> TodoManager \<times> filesystem" where
  "run_todo_tools [] st = ([], st)"
| "run_todo_tools (toolUse # rest) st =
     (if tu_name toolUse = ''todo_write''
      then (let (result, st1) = executeTodoWrite (tu_input toolUse) st;
                (toolResults, st2) = run_todo_tools rest st1
            in (\<lparr>tool_use_id = tu_id toolUse, result_content = result\<rparr> # toolResults, st2))
      else run_todo_tools rest st)"

text \<open>The variables of \<open>runAgentWithTodos\<close> that the loop changes.\<close>

record todo_run =
  run_response :: Response
  run_messages :: "reply_text MessageParam list"
  run_manager :: "TodoManager \<times> filesystem"
  run_iterations :: nat

text \<open>
  One pass through the body of the \<open>while\<close> loop. \<open>client\<close> is
  \<open>client.messages.create\<close> with the fixed model, system prompt and tool list: from the
  messages sent to the answer, or to the error it throws, which nothing here catches.
\<close>

definition todo_loop_body ::
  "(reply_text MessageParam list \<Rightarrow> js_error + Response) \<Rightarrow> todo_run \<Rightarrow> js_error + todo_run" where
  "todo_loop_body client s =
     (let toolUses = tool_use_blocks (resp_content (run_response s));
          messages1 = run_messages s @ [AssistantBlocks (resp_content (run_response s))];
          (toolResults, manager1) = run_todo_tools toolUses (run_manager s);
          messages2 = messages1 @ [UserToolResults toolResults]
      in (case client messages2 of
            Inl e \<Rightarrow> Inl e
          | Inr response1 \<Rightarrow>
              Inr \<lparr>run_response = response1, run_messages = messages2,
                   run_manager = manager1, run_iterations = run_iterations s + 1\<rparr>))"

definition maxIterations :: nat where
  "maxIterations = 30"

function todo_loop ::
  "(reply_text MessageParam list \<Rightarrow> js_error + Response) \<Rightarrow> todo_run \<Rightarrow> js_error + todo_run" where
  "todo_loop client s =
     (if resp_stop_reason (run_response s) = tool_use \<and> run_iterations s < maxIterations
      then (case todo_loop_body client s of
              Inl e \<Rightarrow> Inl e
            | Inr s1 \<Rightarrow> todo_loop client s1)
      else Inr s)"
  by pat_completeness auto
termination
proof (relation "measure (\<lambda>(client, s). maxIterations - run_iterations s)")
  show "wf (measure (\<lambda>(client, s). maxIterations - run_iterations s))"
    by simp
next
  fix client :: "reply_text MessageParam list \<Rightarrow> js_error + Response"
  fix s s1 :: todo_run
  assume go: "resp_stop_reason (run_response s) = tool_use \<and> run_iterations s < maxIterations"
    and body: "todo_loop_body client s = Inr s1"
  from body have "run_iterations s1 = run_iterations s + 1"
    by (auto simp: todo_loop_body_def Let_def split: prod.splits sum.splits)
  with go show "((client, s1), (client, s)) \<in> measure (\<lambda>(client, s). maxIterations - run_iterations s)"
    by (simp; arith)
qed

text \<open>
  \<open>runAgentWithTodos\<close>: a new manager on \<open>.todos.json\<close>, the first request, the loop.
  The source returns the manager; the final messages and counter come with it here.
\<close>

definition runAgentWithTodos ::
  "string \<Rightarrow> filesystem \<Rightarrow> (reply_text MessageParam list \<Rightarrow> js_error + Response)
     \<Rightarrow> js_error + todo_run" where
  "runAgentWithTodos userRequest fs client =
     (let manager = new_TodoManager ''.todos.json'' fs;
          messages = [UserText userRequest]
      in (case client messages of
            Inl e \<Rightarrow> Inl e
          | Inr response \<Rightarrow>
              todo_loop client
                \<lparr>run_response = response, run_messages = messages,
                 run_manager = (manager, fs), run_iterations = 0\<rparr>))"

subsection \<open>\<open>SandboxedClaudeAgent\<close>\<close>

text \<open>
  \<open>executeTool\<close>: the \<open>switch\<close> on the tool's name. \<open>fileSystem\<close> stands for the four
  methods of \<open>SandboxedFileSystem\<close> the cases call: given the name and the input, the
  method's result and the file system after it. The \<open>default\<close> case builds the object
  \<open>{success: false, error}\<close> naming the unknown tool.
\<close>

datatype 'r tool_outcome = MethodResult 'r | UnknownTool string

definition executeTool ::
  "(string \<Rightarrow> json_input \<Rightarrow> 'fs \<Rightarrow> 'r \<times> 'fs) \<Rightarrow> string \<Rightarrow> json_input \<Rightarrow> 'fs
     \<Rightarrow> 'r tool_outcome \<times> 'fs" where
  "executeTool fileSystem toolName input fs =
     (if toolName \<in> set [''read_file'', ''write_file'', ''list_files'', ''delete_file'']
      then (let (result, fs1) = fileSystem toolName input fs in (MethodResult result, fs1))
      else (UnknownTool toolName, fs))"

record ('r, 'fs) sandbox_run =
  sb_response :: Response
  sb_messages :: "'r tool_outcome MessageParam list"
  sb_fileSystem :: 'fs
  sb_iterationCount :: nat

text \<open>
  One pass through the body of the loop of \<open>run\<close>, after \<open>iterationCount++\<close>. The body
  takes the first \<open>tool_use\<close> block only. \<open>None\<close>: no such block, the \<open>break\<close>.
\<close>

definition sandbox_loop_body ::
  "(string \<Rightarrow> json_input \<Rightarrow> 'fs \<Rightarrow> 'r \<times> 'fs)
     \<Rightarrow> ('r tool_outcome MessageParam list \<Rightarrow> js_error + Response)
     \<Rightarrow> ('r, 'fs) sandbox_run \<Rightarrow> (js_error + ('r, 'fs) sandbox_run) option" where
  "sandbox_loop_body fileSystem client s =
     (case find_tool_use (resp_content (sb_response s)) of
        None \<Rightarrow> None
      | Some toolUse \<Rightarrow>
          (let (toolResult, fs1) =
                 executeTool fileSystem (tu_name toolUse) (tu_input toolUse) (sb_fileSystem s);
               messages1 = sb_messages s @ [AssistantBlocks (resp_content (sb_response s))];
               messages2 = messages1 @
                 [UserToolResults [\<lparr>tool_use_id = tu_id toolUse, result_content = toolResult\<rparr>]]
           in Some (case client messages2 of
                      Inl e \<Rightarrow> Inl e
                    | Inr response1 \<Rightarrow>
                        Inr (s\<lparr>sb_response := response1, sb_messages := messages2,
                               sb_fileSystem := fs1\<rparr>))))"

function sandbox_loop ::
  "(string \<Rightarrow> json_input \<Rightarrow> 'fs \<Rightarrow> 'r \<times> 'fs)
     \<Rightarrow> ('r tool_outcome MessageParam list \<Rightarrow> js_error + Response)
     \<Rightarrow> ('r, 'fs) sandbox_run \<Rightarrow> js_error + ('r, 'fs) sandbox_run" where
  "sandbox_loop fileSystem client s =
     (if resp_stop_reason (sb_response s) = tool_use \<and> sb_iterationCount s < 10
      then (let s0 = s\<lparr>sb_iterationCount := sb_iterationCount s + 1\<rparr>
            in (case sandbox_loop_body fileSystem client s0 of
                  None \<Rightarrow> Inr s0
                | Some (Inl e) \<Rightarrow> Inl e
                | Some (Inr s1) \<Rightarrow> sandbox_loop fileSystem client s1))
      else Inr s)"
  by pat_completeness auto
termination
proof (relation "measure (\<lambda>(fileSystem, client, s). 10 - sb_iterationCount s)")
  show "wf (measure (\<lambda>(fileSystem, client, s). 10 - sb_iterationCount s))"
    by simp
next
  fix fileSystem :: "string \<Rightarrow> json_input \<Rightarrow> 'fs \<Rightarrow> 'r \<times> 'fs"
  fix client :: "'r tool_outcome MessageParam list \<Rightarrow> js_error + Response"
  fix s s0 s1 :: "('r, 'fs) sandbox_run" and x
  assume go: "resp_stop_reason (sb_response s) = tool_use \<and> sb_iterationCount s < 10"
    and s0: "s0 = s\<lparr>sb_iterationCount := sb_iterationCount s + 1\<rparr>"
    and body: "sandbox_loop_body fileSystem client s0 = Some x" "x = Inr s1"
  from body have "sb_iterationCount s1 = sb_iterationCount s0"
    by (auto simp: sandbox_loop_body_def Let_def split: option.splits prod.splits sum.splits)
  with go s0
  show "((fileSystem, client, s1), (fileSystem, client, s))
          \<in> measure (\<lambda>(fileSystem, client, s). 10 - sb_iterationCount s)"
    by (simp; arith)
qed

text \<open>
  \<open>run\<close>: the first request, the loop, then the text of the first text block of the
  last answer (\<open>None\<close>: there is no such block or its text is empty, and the source
  returns its fixed placeholder).
\<close>

definition sandbox_run_agent ::
  "(string \<Rightarrow> json_input \<Rightarrow> 'fs \<Rightarrow> 'r \<times> 'fs)
     \<Rightarrow> ('r tool_outcome MessageParam list \<Rightarrow> js_error + Response)
     \<Rightarrow> 'fs \<Rightarrow> string \<Rightarrow> js_error + string option \<times> ('r, 'fs) sandbox_run" where
  "sandbox_run_agent fileSystem client fs userMessage =
     (let messages = [UserText userMessage]
      in (case client messages of
            Inl e \<Rightarrow> Inl e
          | Inr response \<Rightarrow>
              (case sandbox_loop fileSystem client
                      \<lparr>sb_response = response, sb_messages = messages,
                       sb_fileSystem = fs, sb_iterationCount = 0\<rparr> of
                 Inl e \<Rightarrow> Inl e
               | Inr s \<Rightarrow>
                   Inr (case find_text (resp_content (sb_response s)) of
                          None \<Rightarrow> None
                        | Some t \<Rightarrow> (if t = [] then None else Some t), s))))"

section \<open>The orchestrator: \<open>SubAgent\<close> and \<open>SubAgentOrchestrator\<close>\<close>

subsection \<open>Data\<close>

text \<open>
  The three interfaces. A field carries its record's prefix, since two of them share
  the name \<open>agentName\<close>: \<open>cfg_\<close> for \<open>SubAgentConfig\<close>, \<open>task_\<close> for \<open>SubAgentTask\<close>, \<open>res_\<close>
  for \<open>SubAgentResult\<close>. \<open>res_error\<close> holds the caught value whose message the source
  stores; \<open>None\<close> is the property left out.
\<close>

record SubAgentConfig =
  cfg_name :: string
  cfg_systemPrompt :: string
  cfg_model :: "string option"

record SubAgentTask =
  task_agentName :: string
  task_prompt :: string

record SubAgentResult =
  res_agentName :: string
  res_result :: string
  res_error :: "js_error option"

text \<open>What \<open>SubAgent.execute\<close> sends: the model, the system prompt, the one user message.\<close>

record Request =
  req_model :: string
  req_system :: string
  req_user :: string

text \<open>
  \<open>SubAgent.execute\<close>: the constructor's default model unless the configuration names
  one; the text of the first text block of the answer, or the empty string; an error
  of the API is thrown again.
\<close>

definition execute ::
  "(Request \<Rightarrow> js_error + ContentBlock list) \<Rightarrow> SubAgentConfig \<Rightarrow> string \<Rightarrow> js_error + string" where
  "execute api config userPrompt =
     (case api \<lparr>req_model = (case cfg_model config of
                               None \<Rightarrow> ''claude-3-5-sonnet-20241022''
                             | Some m \<Rightarrow> m),
                 req_system = cfg_systemPrompt config,
                 req_user = userPrompt\<rparr> of
        Inl e \<Rightarrow> Inl e
      | Inr blocks \<Rightarrow>
          Inr (case find_text blocks of None \<Rightarrow> [] | Some t \<Rightarrow> t))"

text \<open>
  The \<open>Map\<close> of sub-agents, in insertion order. \<open>registerSubAgent\<close> is \<open>Map.set\<close>: a
  name already present keeps its place and gets the new agent.
\<close>

type_synonym registry = "(string \<times> SubAgentConfig) list"

fun map_set :: "string \<Rightarrow> SubAgentConfig \<Rightarrow> registry \<Rightarrow> registry" where
  "map_set k v [] = [(k, v)]"
| "map_set k v (p # ps) = (if fst p = k then (k, v) # ps else p # map_set k v ps)"

definition registerSubAgent :: "SubAgentConfig \<Rightarrow> registry \<Rightarrow> registry" where
  "registerSubAgent config subAgents = map_set (cfg_name config) config subAgents"

definition listSubAgents :: "registry \<Rightarrow> string list" where
  "listSubAgents subAgents = map fst subAgents"

definition delegateToSubAgent ::
  "registry \<Rightarrow> (Request \<Rightarrow> js_error + ContentBlock list) \<Rightarrow> string \<Rightarrow> string
     \<Rightarrow> js_error + string" where
  "delegateToSubAgent subAgents api agentName prompt =
     (case map_of subAgents agentName of
        None \<Rightarrow> Inl (AgentNotFound agentName)
      | Some subAgent \<Rightarrow> execute api subAgent prompt)"

subsection \<open>\<open>Promise.all\<close>\<close>

text \<open>
  A promise that has settled, and \<open>Promise.all\<close> as ECMAScript specifies it: one slot
  per input promise, a count of the promises still to be fulfilled, and the outcome
  (\<open>None\<close> while pending). When the promise at position \<open>i\<close> is fulfilled its value goes
  to slot \<open>i\<close> and the count goes down; the count reaching zero resolves with the slots.
  The first rejection rejects. Once the outcome is there nothing changes it.
\<close>

datatype 'a settled = Fulfilled 'a | Rejected js_error

record 'a all_state =
  slots :: "'a option list"
  remaining :: nat
  outcome :: "(js_error + 'a list) option"

definition all_start :: "'a settled list \<Rightarrow> 'a all_state" where
  "all_start ps =
     \<lparr>slots = replicate (length ps) None, remaining = length ps,
      outcome = (if length ps = 0 then Some (Inr []) else None)\<rparr>"

definition on_settled :: "'a settled list \<Rightarrow> 'a all_state \<Rightarrow> nat \<Rightarrow> 'a all_state" where
  "on_settled ps s i =
     (if length ps \<le> i then s
      else (case ps ! i of
              Rejected e \<Rightarrow> (if outcome s = None then s\<lparr>outcome := Some (Inl e)\<rparr> else s)
            | Fulfilled v \<Rightarrow>
                (let slots1 = (slots s)[i := Some v];
                     remaining1 = remaining s - 1
                 in s\<lparr>slots := slots1, remaining := remaining1,
                      outcome := (if outcome s = None \<and> remaining1 = 0
                                  then map_option Inr (those slots1) else outcome s)\<rparr>)))"

text \<open>
  \<open>Promise.all\<close> of the promises \<open>ps\<close> after they have settled in the order \<open>settle_order\<close>
  (positions in \<open>ps\<close>): \<open>None\<close> while it is pending, else what \<open>await\<close> gives.
\<close>

definition Promise_all :: "'a settled list \<Rightarrow> nat list \<Rightarrow> (js_error + 'a list) option" where
  "Promise_all ps settle_order = outcome (foldl (on_settled ps) (all_start ps) settle_order)"

subsection \<open>\<open>delegateParallel\<close> and the execution phase of \<open>orchestrate\<close>\<close>

text \<open>
  The \<open>async\<close> callback of \<open>tasks.map\<close>. \<open>branch_result\<close> is the value it returns: from
  the \<open>try\<close> the result, from the \<open>catch\<close> the empty result with the error. Both ways
  are a \<open>return\<close>, so the callback's promise is fulfilled with that value.
\<close>

definition branch_result ::
  "registry \<Rightarrow> (Request \<Rightarrow> js_error + ContentBlock list) \<Rightarrow> SubAgentTask \<Rightarrow> SubAgentResult" where
  "branch_result subAgents api task =
     (case delegateToSubAgent subAgents api (task_agentName task) (task_prompt task) of
        Inr result \<Rightarrow>
          \<lparr>res_agentName = task_agentName task, res_result = result, res_error = None\<rparr>
      | Inl e \<Rightarrow>
          \<lparr>res_agentName = task_agentName task, res_result = [], res_error = Some e\<rparr>)"

definition parallel_branch ::
  "registry \<Rightarrow> (Request \<Rightarrow> js_error + ContentBlock list) \<Rightarrow> SubAgentTask
     \<Rightarrow> SubAgentResult settled" where
  "parallel_branch subAgents api task = Fulfilled (branch_result subAgents api task)"

text \<open>
  \<open>delegateParallel\<close> under a given order in which its branches finish: \<open>None\<close> while
  \<open>await Promise.all(promises)\<close> has not returned, \<open>Inl\<close> if the call throws.
\<close>

definition delegateParallel ::
  "registry \<Rightarrow> (Request \<Rightarrow> js_error + ContentBlock list) \<Rightarrow> SubAgentTask list \<Rightarrow> nat list
     \<Rightarrow> (js_error + SubAgentResult list) option" where
  "delegateParallel subAgents api tasks settle_order =
     Promise_all (map (parallel_branch subAgents api) tasks) settle_order"

text \<open>
  The \<open>for\<close> loop of the \<open>else\<close> branch of \<open>orchestrate\<close>, with the results pushed so far.
  The \<open>await\<close> stands in no \<open>try\<close>: an error leaves the loop and \<open>orchestrate\<close>.
\<close>

fun sequential_loop ::
  "registry \<Rightarrow> (Request \<Rightarrow> js_error + ContentBlock list) \<Rightarrow> SubAgentTask list
     \<Rightarrow> SubAgentResult list \<Rightarrow> js_error + SubAgentResult list" where
  "sequential_loop subAgents api [] results = Inr results"
| "sequential_loop subAgents api (task # rest) results =
     (case delegateToSubAgent subAgents api (task_agentName task) (task_prompt task) of
        Inl e \<Rightarrow> Inl e
      | Inr result \<Rightarrow>
          sequential_loop subAgents api rest
            (results @ [\<lparr>res_agentName = task_agentName task, res_result = result,
                          res_error = None\<rparr>]))"

text \<open>The parsed plan, as far as the execution phase reads it.\<close>

record Plan =
  plan_tasks :: "SubAgentTask list"
  plan_parallel :: bool

text \<open>
  The execution phase of \<open>orchestrate\<close>, between the parsing of the plan and the
  synthesis request. The two requests around it are not modelled.
\<close>

definition orchestrate_execute ::
  "registry \<Rightarrow> (Request \<Rightarrow> js_error + ContentBlock list) \<Rightarrow> Plan \<Rightarrow> nat list
     \<Rightarrow> (js_error + SubAgentResult list) option" where
  "orchestrate_execute subAgents api plan settle_order =
     (if plan_parallel plan \<and> length (plan_tasks plan) > 1
      then delegateParallel subAgents api (plan_tasks plan) settle_order
      else Some (sequential_loop subAgents api (plan_tasks plan) []))"

section \<open>Properties of the task list\<close>

text \<open>
  The loop of \<open>validate\<close> reports the error of the first task at which the callback
  throws: \<open>i\<close> is that task's position counted from where the loop stands, \<open>k\<close> the
  index the loop has reached.
\<close>

lemma forEach_check_first:
  "i < length ts \<Longrightarrow> (\<forall>j<i. check_todo (k + j) (ts ! j) = None) \<Longrightarrow>
   check_todo (k + i) (ts ! i) = Some e \<Longrightarrow> forEach_check k ts = Some e"
proof (induction ts arbitrary: k i)
  case Nil
  then show ?case by simp
next
  case (Cons t ts)
  show ?case
  proof (cases i)
    case 0
    with Cons.prems show ?thesis by simp
  next
    case (Suc i')
    from Cons.prems(2) Suc have head: "check_todo k t = None"
      by (metis add.right_neutral nth_Cons_0 zero_less_Suc)
    have "forEach_check (Suc k) ts = Some e"
    proof (rule Cons.IH [of i'])
      show "i' < length ts" using Cons.prems(1) Suc by simp
      show "\<forall>j<i'. check_todo (Suc k + j) (ts ! j) = None"
      proof (intro allI impI)
        fix j assume "j < i'"
        then have "Suc j < i" using Suc by simp
        with Cons.prems(2) have "check_todo (k + Suc j) ((t # ts) ! Suc j) = None" by blast
        then show "check_todo (Suc k + j) (ts ! j) = None" by simp
      qed
      show "check_todo (Suc k + i') (ts ! i') = Some e"
        using Cons.prems(3) Suc by simp
    qed
    with head show ?thesis by simp
  qed
qed

text \<open>
  Claim C1. Whenever \<open>update\<close> accepts a candidate list (it does not throw), the list
  stored afterwards, as \<open>getAll\<close> returns it, holds at most one task whose status is
  \<open>in_progress\<close>.
\<close>

theorem update_accepted_single_in_progress:
  assumes "fst (update ts st) = Inr u"
  shows "length (filter (\<lambda>t. status t = ''in_progress'') (getAll (fst (snd (update ts st))))) \<le> 1"
proof -
  from assms have ok: "validate ts = Inr ()"
    by (auto simp: update_def Let_def split: sum.splits)
  then have stored: "getAll (fst (snd (update ts st))) = ts"
    by (simp add: update_def Let_def getAll_def)
  from ok have "inProgressCount ts \<le> 1"
    by (auto simp: validate_def split: if_splits)
  with stored show ?thesis
    by (simp add: inProgressCount_def)
qed

text \<open>
  An accepted update at which C1 applies: a first update of an empty manager with one
  task in progress and one pending.
\<close>

theorem update_accepted_single_in_progress_witness:
  "fst (update [\<lparr>content = ''a'', status = ''in_progress'', activeForm = ''A-ing''\<rparr>,
           \<lparr>content = ''b'', status = ''pending'', activeForm = ''B-ing''\<rparr>]
      (\<lparr>todos = [], todoFile = ''.todos.json''\<rparr>, \<lparr>files = (\<lambda>p. None), writable = (\<lambda>p. True)\<rparr>))
    = Inr ()
   \<and> length (filter (\<lambda>t. status t = ''in_progress'')
        (getAll (fst (snd (update [\<lparr>content = ''a'', status = ''in_progress'', activeForm = ''A-ing''\<rparr>,
           \<lparr>content = ''b'', status = ''pending'', activeForm = ''B-ing''\<rparr>]
      (\<lparr>todos = [], todoFile = ''.todos.json''\<rparr>, \<lparr>files = (\<lambda>p. None), writable = (\<lambda>p. True)\<rparr>)))))) \<le> 1"
proof -
  have run: "fst (update [\<lparr>content = ''a'', status = ''in_progress'', activeForm = ''A-ing''\<rparr>,
           \<lparr>content = ''b'', status = ''pending'', activeForm = ''B-ing''\<rparr>]
      (\<lparr>todos = [], todoFile = ''.todos.json''\<rparr>, \<lparr>files = (\<lambda>p. None), writable = (\<lambda>p. True)\<rparr>))
    = Inr ()"
    by (simp add: update_def validate_def inProgressCount_def check_todo_def blank_def trim_def
        is_js_space_def Let_def)
  from update_accepted_single_in_progress [OF run] run show ?thesis by simp
qed

text \<open>
  Claim C2. \<open>update\<close> is all or nothing: when it throws a validation error, \<open>getAll\<close>
  returns afterwards what it returned before, and neither the manager nor the file
  has changed.
\<close>

theorem update_rejected_changes_nothing:
  assumes "fst (update ts st) = Inl e"
  shows "getAll (fst (snd (update ts st))) = getAll (fst st) \<and> snd (update ts st) = st"
proof -
  from assms have "validate ts = Inl e"
    by (auto simp: update_def Let_def split: sum.splits)
  then show ?thesis
    by (simp add: update_def)
qed

text \<open>
  A rejected update at which C2 applies: two tasks in progress offered to a manager
  that holds one pending task.
\<close>

theorem update_rejected_changes_nothing_witness:
  "fst (update [\<lparr>content = ''a'', status = ''in_progress'', activeForm = ''A-ing''\<rparr>,
           \<lparr>content = ''b'', status = ''in_progress'', activeForm = ''B-ing''\<rparr>]
      (\<lparr>todos = [\<lparr>content = ''a'', status = ''pending'', activeForm = ''A-ing''\<rparr>],
        todoFile = ''.todos.json''\<rparr>, \<lparr>files = (\<lambda>p. None), writable = (\<lambda>p. True)\<rparr>))
    = Inl (MultipleInProgress 2)
   \<and> getAll (fst (snd (update [\<lparr>content = ''a'', status = ''in_progress'', activeForm = ''A-ing''\<rparr>,
           \<lparr>content = ''b'', status = ''in_progress'', activeForm = ''B-ing''\<rparr>]
      (\<lparr>todos = [\<lparr>content = ''a'', status = ''pending'', activeForm = ''A-ing''\<rparr>],
        todoFile = ''.todos.json''\<rparr>, \<lparr>files = (\<lambda>p. None), writable = (\<lambda>p. True)\<rparr>))))
    = [\<lparr>content = ''a'', status = ''pending'', activeForm = ''A-ing''\<rparr>]"
proof -
  have run: "fst (update [\<lparr>content = ''a'', status = ''in_progress'', activeForm = ''A-ing''\<rparr>,
           \<lparr>content = ''b'', status = ''in_progress'', activeForm = ''B-ing''\<rparr>]
      (\<lparr>todos = [\<lparr>content = ''a'', status = ''pending'', activeForm = ''A-ing''\<rparr>],
        todoFile = ''.todos.json''\<rparr>, \<lparr>files = (\<lambda>p. None), writable = (\<lambda>p. True)\<rparr>))
    = Inl (MultipleInProgress 2)"
    by (simp add: update_def validate_def inProgressCount_def)
  from update_rejected_changes_nothing [OF run] run show ?thesis
    by (simp add: getAll_def)
qed

text \<open>
  Claim C3 as stated fails. The list below holds a task with an invalid status (the
  first) and a task with empty content (the second), yet the error reported is the
  invalid status of task 1, not the missing field: the loop makes all three tests on
  a task before it goes on to the next task.
\<close>

theorem validate_status_before_later_blank_counterexample:
  "validate [\<lparr>content = ''a'', status = ''bogus'', activeForm = ''A-ing''\<rparr>,
             \<lparr>content = '''', status = ''pending'', activeForm = ''B-ing''\<rparr>]
     = Inl (InvalidStatus 1 ''bogus'')"
  by (simp add: validate_def inProgressCount_def check_todo_def blank_def trim_def is_js_space_def)

text \<open>
  Claim C3, amended. \<open>validate\<close> first rejects the empty list, then a list with more
  than one task in progress (naming the count), and then goes through the tasks in
  list order, testing on each task its content, then its \<open>activeForm\<close>, then its status:
  if \<open>i\<close> is the first task that fails a test, the error is that task's, and it is the
  missing content if the content is blank, else the missing \<open>activeForm\<close> if that is
  blank, else the invalid status; whatever stands in later tasks plays no part.
\<close>

theorem validate_reports_first_failing_check:
  "validate [] = Inl EmptyList
   \<and> (ts \<noteq> [] \<and> 1 < inProgressCount ts
        \<longrightarrow> validate ts = Inl (MultipleInProgress (inProgressCount ts)))
   \<and> (ts \<noteq> [] \<and> inProgressCount ts \<le> 1 \<and> i < length ts
        \<and> (\<forall>j<i. check_todo j (ts ! j) = None) \<and> check_todo i (ts ! i) \<noteq> None
        \<longrightarrow> validate ts =
              Inl (if blank (content (ts ! i)) then ContentEmpty (i + 1)
                   else if blank (activeForm (ts ! i)) then ActiveFormEmpty (i + 1)
                   else InvalidStatus (i + 1) (status (ts ! i))))"
proof (intro conjI impI)
  show "validate [] = Inl EmptyList"
    by (simp add: validate_def)
next
  assume "ts \<noteq> [] \<and> 1 < inProgressCount ts"
  then show "validate ts = Inl (MultipleInProgress (inProgressCount ts))"
    by (simp add: validate_def)
next
  assume a: "ts \<noteq> [] \<and> inProgressCount ts \<le> 1 \<and> i < length ts
        \<and> (\<forall>j<i. check_todo j (ts ! j) = None) \<and> check_todo i (ts ! i) \<noteq> None"
  let ?e = "if blank (content (ts ! i)) then ContentEmpty (i + 1)
                   else if blank (activeForm (ts ! i)) then ActiveFormEmpty (i + 1)
                   else InvalidStatus (i + 1) (status (ts ! i))"
  from a have "i < length ts" by simp
  moreover from a have "\<forall>j<i. check_todo (0 + j) (ts ! j) = None" by simp
  moreover from a have "check_todo (0 + i) (ts ! i) = Some ?e"
    by (auto simp: check_todo_def split: if_splits)
  ultimately have "forEach_check 0 ts = Some ?e"
    by (rule forEach_check_first)
  with a show "validate ts = Inl ?e"
    by (simp add: validate_def)
qed

text \<open>
  The amended C3 at a list whose second task has an invalid status and whose third
  task has blank content: the invalid status of task 2 is reported.
\<close>

theorem validate_reports_first_failing_check_witness:
  "[\<lparr>content = ''a'', status = ''pending'', activeForm = ''A-ing''\<rparr>,
    \<lparr>content = ''b'', status = ''bogus'', activeForm = ''B-ing''\<rparr>,
    \<lparr>content = '' '', status = ''pending'', activeForm = ''C-ing''\<rparr>] \<noteq> []
   \<and> inProgressCount
        [\<lparr>content = ''a'', status = ''pending'', activeForm = ''A-ing''\<rparr>,
         \<lparr>content = ''b'', status = ''bogus'', activeForm = ''B-ing''\<rparr>,
         \<lparr>content = '' '', status = ''pending'', activeForm = ''C-ing''\<rparr>] \<le> 1
   \<and> check_todo 0 \<lparr>content = ''a'', status = ''pending'', activeForm = ''A-ing''\<rparr> = None
   \<and> check_todo 1 \<lparr>content = ''b'', status = ''bogus'', activeForm = ''B-ing''\<rparr> \<noteq> None
   \<and> blank (content \<lparr>content = '' '', status = ''pending'', activeForm = ''C-ing''\<rparr>)
   \<and> validate
        [\<lparr>content = ''a'', status = ''pending'', activeForm = ''A-ing''\<rparr>,
         \<lparr>content = ''b'', status = ''bogus'', activeForm = ''B-ing''\<rparr>,
         \<lparr>content = '' '', status = ''pending'', activeForm = ''C-ing''\<rparr>]
       = Inl (InvalidStatus 2 ''bogus'')"
proof -
  let ?ts = "[\<lparr>content = ''a'', status = ''pending'', activeForm = ''A-ing''\<rparr>,
    \<lparr>content = ''b'', status = ''bogus'', activeForm = ''B-ing''\<rparr>,
    \<lparr>content = '' '', status = ''pending'', activeForm = ''C-ing''\<rparr>]"
  have ok0: "check_todo 0 \<lparr>content = ''a'', status = ''pending'', activeForm = ''A-ing''\<rparr> = None"
    by (simp add: check_todo_def blank_def trim_def is_js_space_def)
  have bad1: "check_todo 1 \<lparr>content = ''b'', status = ''bogus'', activeForm = ''B-ing''\<rparr> \<noteq> None"
    by (simp add: check_todo_def blank_def trim_def is_js_space_def)
  have blank2: "blank (content \<lparr>content = '' '', status = ''pending'', activeForm = ''C-ing''\<rparr>)"
    by (simp add: blank_def trim_def is_js_space_def)
  have count: "inProgressCount ?ts \<le> 1"
    by (simp add: inProgressCount_def)
  have before: "\<forall>j<1. check_todo j (?ts ! j) = None"
    using ok0 by simp
  have "validate ?ts =
          Inl (if blank (content (?ts ! 1)) then ContentEmpty (1 + 1)
               else if blank (activeForm (?ts ! 1)) then ActiveFormEmpty (1 + 1)
               else InvalidStatus (1 + 1) (status (?ts ! 1)))"
    using validate_reports_first_failing_check [of ?ts 1] count before bad1 by simp
  then have "validate ?ts = Inl (InvalidStatus 2 ''bogus'')"
    by (simp add: blank_def trim_def is_js_space_def)
  with ok0 bad1 blank2 count show ?thesis by simp
qed

text \<open>What the constructor and \<open>update\<close> do, for the claim about the persisted file.\<close>

lemma new_TodoManager_Document:
  "files fs path = Some (Document ts) \<Longrightarrow> new_TodoManager path fs = \<lparr>todos = ts, todoFile = path\<rparr>"
  by (simp add: new_TodoManager_def load_def)

lemma update_validate: "fst (update ts st) = validate ts"
  by (simp add: update_def Let_def split: sum.splits)

text \<open>
  Claim C10. The constructor takes over whatever task array the persisted document
  holds and never validates it. So some documents give a new manager a list that
  \<open>update\<close> itself rejects when offered that same list: one with two tasks in progress,
  and one with a task of empty content. The bound on tasks in progress therefore holds
  from the first accepted update on, not from construction.
\<close>

theorem constructor_adopts_file_unvalidated:
  "(files fs path = Some (Document ts) \<longrightarrow> getAll (new_TodoManager path fs) = ts)
   \<and> (\<exists>fs0 path0 e.
         1 < inProgressCount (getAll (new_TodoManager path0 fs0))
         \<and> fst (update (getAll (new_TodoManager path0 fs0)) (new_TodoManager path0 fs0, fs0)) = Inl e)
   \<and> (\<exists>fs0 path0 e.
         (\<exists>t \<in> set (getAll (new_TodoManager path0 fs0)). content t = [])
         \<and> fst (update (getAll (new_TodoManager path0 fs0)) (new_TodoManager path0 fs0, fs0)) = Inl e)"
proof (intro conjI impI)
  assume "files fs path = Some (Document ts)"
  then show "getAll (new_TodoManager path fs) = ts"
    by (simp add: new_TodoManager_Document getAll_def)
next
  let ?doc = "[\<lparr>content = ''a'', status = ''in_progress'', activeForm = ''A-ing''\<rparr>,
               \<lparr>content = ''b'', status = ''in_progress'', activeForm = ''B-ing''\<rparr>]"
  let ?fs = "\<lparr>files = (\<lambda>p. Some (Document ?doc)), writable = (\<lambda>p. True)\<rparr>"
  let ?m = "new_TodoManager ''.todos.json'' ?fs"
  have stored: "getAll ?m = ?doc"
    by (simp add: new_TodoManager_Document getAll_def)
  have count: "inProgressCount ?doc = 2"
    by (simp add: inProgressCount_def)
  then have "validate ?doc = Inl (MultipleInProgress 2)"
    by (simp add: validate_def)
  then have "fst (update (getAll ?m) (?m, ?fs)) = Inl (MultipleInProgress 2)"
    by (simp only: stored update_validate)
  moreover have "1 < inProgressCount (getAll ?m)"
    by (simp only: stored count)
  ultimately show "\<exists>fs0 path0 e.
         1 < inProgressCount (getAll (new_TodoManager path0 fs0))
         \<and> fst (update (getAll (new_TodoManager path0 fs0)) (new_TodoManager path0 fs0, fs0)) = Inl e"
    by blast
next
  let ?doc = "[\<lparr>content = '''', status = ''pending'', activeForm = ''A-ing''\<rparr>]"
  let ?fs = "\<lparr>files = (\<lambda>p. Some (Document ?doc)), writable = (\<lambda>p. True)\<rparr>"
  let ?m = "new_TodoManager ''.todos.json'' ?fs"
  have stored: "getAll ?m = ?doc"
    by (simp add: new_TodoManager_Document getAll_def)
  have "validate ?doc = Inl (ContentEmpty 1)"
    by (simp add: validate_def inProgressCount_def check_todo_def blank_def)
  then have "fst (update (getAll ?m) (?m, ?fs)) = Inl (ContentEmpty 1)"
    by (simp only: stored update_validate)
  moreover have "\<exists>t \<in> set ?doc. content t = []"
    by simp
  then have "\<exists>t \<in> set (getAll ?m). content t = []"
    by (simp only: stored)
  ultimately show "\<exists>fs0 path0 e.
         (\<exists>t \<in> set (getAll (new_TodoManager path0 fs0)). content t = [])
         \<and> fst (update (getAll (new_TodoManager path0 fs0)) (new_TodoManager path0 fs0, fs0)) = Inl e"
    by blast
qed

text \<open>
  C10 at a file that holds two tasks in progress: the new manager returns both, and
  \<open>validate\<close> rejects that list.
\<close>

theorem constructor_adopts_file_unvalidated_witness:
  "files \<lparr>files = (\<lambda>p. Some (Document
            [\<lparr>content = ''a'', status = ''in_progress'', activeForm = ''A-ing''\<rparr>,
             \<lparr>content = ''b'', status = ''in_progress'', activeForm = ''B-ing''\<rparr>])),
          writable = (\<lambda>p. True)\<rparr> ''.todos.json''
     = Some (Document
            [\<lparr>content = ''a'', status = ''in_progress'', activeForm = ''A-ing''\<rparr>,
             \<lparr>content = ''b'', status = ''in_progress'', activeForm = ''B-ing''\<rparr>])
   \<and> getAll (new_TodoManager ''.todos.json''
         \<lparr>files = (\<lambda>p. Some (Document
            [\<lparr>content = ''a'', status = ''in_progress'', activeForm = ''A-ing''\<rparr>,
             \<lparr>content = ''b'', status = ''in_progress'', activeForm = ''B-ing''\<rparr>])),
          writable = (\<lambda>p. True)\<rparr>)
     = [\<lparr>content = ''a'', status = ''in_progress'', activeForm = ''A-ing''\<rparr>,
        \<lparr>content = ''b'', status = ''in_progress'', activeForm = ''B-ing''\<rparr>]
   \<and> validate [\<lparr>content = ''a'', status = ''in_progress'', activeForm = ''A-ing''\<rparr>,
                \<lparr>content = ''b'', status = ''in_progress'', activeForm = ''B-ing''\<rparr>]
     = Inl (MultipleInProgress 2)"
proof -
  let ?doc = "[\<lparr>content = ''a'', status = ''in_progress'', activeForm = ''A-ing''\<rparr>,
               \<lparr>content = ''b'', status = ''in_progress'', activeForm = ''B-ing''\<rparr>]"
  let ?fs = "\<lparr>files = (\<lambda>p. Some (Document ?doc)), writable = (\<lambda>p. True)\<rparr>"
  have at_path: "files ?fs ''.todos.json'' = Some (Document ?doc)"
    by simp
  have rejected: "validate ?doc = Inl (MultipleInProgress 2)"
    by (simp add: validate_def inProgressCount_def)
  from constructor_adopts_file_unvalidated [of ?fs "''.todos.json''" ?doc] at_path
  have "getAll (new_TodoManager ''.todos.json'' ?fs) = ?doc"
    by blast
  with at_path rejected show ?thesis
    by (simp only: simp_thms)
qed

section \<open>Properties of the tool loops\<close>

text \<open>
  Claim C7, at the input where the code departs from it. The model answers with one
  \<open>tool_use\<close> block whose name, \<open>read_file\<close>, is not \<open>todo_write\<close>. \<open>runAgentWithTodos\<close>
  builds no result for it: the user turn it appends holds no block at all, and that
  is what the next request carries. The manager is unchanged.
\<close>

theorem unknown_tool_use_gets_no_result:
  "todo_loop_body client
     \<lparr>run_response =
        \<lparr>resp_content =
           [ToolUse \<lparr>tu_id = ''toolu_1'', tu_name = ''read_file'', tu_input = OtherInput ''{}''\<rparr>],
         resp_stop_reason = tool_use\<rparr>,
      run_messages = [UserText ''go''], run_manager = st, run_iterations = 0\<rparr>
   = (case client
             [UserText ''go'',
              AssistantBlocks
                [ToolUse \<lparr>tu_id = ''toolu_1'', tu_name = ''read_file'', tu_input = OtherInput ''{}''\<rparr>],
              UserToolResults []] of
        Inl e \<Rightarrow> Inl e
      | Inr response1 \<Rightarrow>
          Inr \<lparr>run_response = response1,
               run_messages =
                 [UserText ''go'',
                  AssistantBlocks
                    [ToolUse \<lparr>tu_id = ''toolu_1'', tu_name = ''read_file'',
                              tu_input = OtherInput ''{}''\<rparr>],
                  UserToolResults []],
               run_manager = st, run_iterations = 1\<rparr>)"
  by (simp add: todo_loop_body_def Let_def split: sum.splits)

text \<open>
  Claim C8, at the input where the code departs from it. The model answers with two
  \<open>tool_use\<close> blocks. The loop of \<open>SandboxedClaudeAgent.run\<close> executes the first one
  only and appends a user turn with the one result; the second block is neither
  executed nor answered.
\<close>

theorem sandbox_answers_first_tool_use_only:
  "sandbox_loop_body fileSystem client
     \<lparr>sb_response =
        \<lparr>resp_content =
           [ToolUse \<lparr>tu_id = ''toolu_1'', tu_name = ''read_file'', tu_input = OtherInput ''a''\<rparr>,
            ToolUse \<lparr>tu_id = ''toolu_2'', tu_name = ''list_files'', tu_input = OtherInput ''b''\<rparr>],
         resp_stop_reason = tool_use\<rparr>,
      sb_messages = [UserText ''go''], sb_fileSystem = fs, sb_iterationCount = 1\<rparr>
   = Some
      (case client
              [UserText ''go'',
               AssistantBlocks
                 [ToolUse \<lparr>tu_id = ''toolu_1'', tu_name = ''read_file'', tu_input = OtherInput ''a''\<rparr>,
                  ToolUse \<lparr>tu_id = ''toolu_2'', tu_name = ''list_files'', tu_input = OtherInput ''b''\<rparr>],
               UserToolResults
                 [\<lparr>tool_use_id = ''toolu_1'',
                   result_content = MethodResult (fst (fileSystem ''read_file'' (OtherInput ''a'') fs))\<rparr>]] of
         Inl e \<Rightarrow> Inl e
       | Inr response1 \<Rightarrow>
           Inr \<lparr>sb_response = response1,
                sb_messages =
                  [UserText ''go'',
                   AssistantBlocks
                     [ToolUse \<lparr>tu_id = ''toolu_1'', tu_name = ''read_file'',
                               tu_input = OtherInput ''a''\<rparr>,
                      ToolUse \<lparr>tu_id = ''toolu_2'', tu_name = ''list_files'',
                               tu_input = OtherInput ''b''\<rparr>],
                   UserToolResults
                     [\<lparr>tool_use_id = ''toolu_1'',
                       result_content =
                         MethodResult (fst (fileSystem ''read_file'' (OtherInput ''a'') fs))\<rparr>]],
                sb_fileSystem = snd (fileSystem ''read_file'' (OtherInput ''a'') fs),
                sb_iterationCount = 1\<rparr>)"
  by (simp add: sandbox_loop_body_def executeTool_def Let_def split: prod.splits sum.splits)

section \<open>Properties of the orchestrator\<close>

text \<open>
  Claim C5, at the input where the code departs from it. A sequential plan names an
  agent that is not registered and then a registered one. The loop throws at the
  first task, whatever the API would answer: no result is collected and the second
  task is never delegated.
\<close>

theorem sequential_failure_stops_later_tasks:
  "sequential_loop
     [(''writer'', \<lparr>cfg_name = ''writer'', cfg_systemPrompt = ''You write.'', cfg_model = None\<rparr>)]
     api
     [\<lparr>task_agentName = ''ghost'', task_prompt = ''first''\<rparr>,
      \<lparr>task_agentName = ''writer'', task_prompt = ''second''\<rparr>]
     []
   = Inl (AgentNotFound ''ghost'')
   \<and> orchestrate_execute
     [(''writer'', \<lparr>cfg_name = ''writer'', cfg_systemPrompt = ''You write.'', cfg_model = None\<rparr>)]
     api
     \<lparr>plan_tasks =
        [\<lparr>task_agentName = ''ghost'', task_prompt = ''first''\<rparr>,
         \<lparr>task_agentName = ''writer'', task_prompt = ''second''\<rparr>],
      plan_parallel = False\<rparr>
     settle_order
   = Some (Inl (AgentNotFound ''ghost''))"
  by (simp add: orchestrate_execute_def delegateToSubAgent_def)

text \<open>
  \<open>Promise.all\<close> over promises that are all fulfilled, after the positions in \<open>order\<close>
  have settled (each once): the slots filled, the count, and the outcome, which is
  there exactly when every position has settled, and is then the values in the order
  of the promises.
\<close>

lemma those_map_Some: "those (map Some xs) = Some xs"
  by (induction xs) simp_all

lemma slots_update:
  "i < n \<Longrightarrow>
   (map (\<lambda>j. if j \<in> A then Some (f j) else None) [0..<n])[i := Some (f i)]
     = map (\<lambda>j. if j \<in> insert i A then Some (f j) else None) [0..<n]"
  by (rule nth_equalityI) (auto simp: nth_list_update)

lemma complete_order:
  assumes "distinct order" and "set order \<subseteq> {..<n}" and "length order = n"
  shows "set order = {..<n}"
proof (rule card_subset_eq)
  show "finite {..<n}" by simp
  show "set order \<subseteq> {..<n}" by (rule assms(2))
  from assms(1,3) show "card (set order) = card {..<n}"
    by (simp add: distinct_card)
qed

lemma order_length_le:
  assumes "distinct order" and "set order \<subseteq> {..<n}"
  shows "length order \<le> n"
proof -
  have "card (set order) \<le> card {..<n}"
    by (rule card_mono) (use assms(2) in simp_all)
  with assms(1) show ?thesis
    by (simp add: distinct_card)
qed

lemma foldl_on_settled_fulfilled:
  assumes "distinct order" and "set order \<subseteq> {..<length vs}"
  shows "foldl (on_settled (map Fulfilled vs)) (all_start (map Fulfilled vs)) order =
     \<lparr>slots = map (\<lambda>j. if j \<in> set order then Some (vs ! j) else None) [0..<length vs],
      remaining = length vs - length order,
      outcome = (if length order = length vs then Some (Inr vs) else None)\<rparr>"
  using assms
proof (induction order rule: rev_induct)
  case Nil
  have "replicate (length vs) None = map (\<lambda>j. None) [0..<length vs]"
    by (simp add: map_replicate_const)
  then show ?case
    by (auto simp: all_start_def)
next
  case (snoc i order)
  let ?n = "length vs"
  from snoc.prems have d: "distinct order" and sub: "set order \<subseteq> {..<?n}"
    and i: "i < ?n" and fresh: "i \<notin> set order"
    by auto
  from snoc.prems have "length (order @ [i]) \<le> ?n"
    by (rule order_length_le)
  then have less: "length order < ?n" by simp
  have before: "foldl (on_settled (map Fulfilled vs)) (all_start (map Fulfilled vs)) order =
     \<lparr>slots = map (\<lambda>j. if j \<in> set order then Some (vs ! j) else None) [0..<?n],
      remaining = ?n - length order, outcome = None\<rparr>"
    using snoc.IH [OF d sub] less by simp
  have slots1: "(map (\<lambda>j. if j \<in> set order then Some (vs ! j) else None) [0..<?n])[i := Some (vs ! i)]
      = map (\<lambda>j. if j \<in> set (order @ [i]) then Some (vs ! j) else None) [0..<?n]"
    using slots_update [OF i, of "set order" "\<lambda>j. vs ! j"] by simp
  have last: "?n - length order - 1 = 0 \<longleftrightarrow> length (order @ [i]) = ?n"
    using less by auto
  have full: "those (map (\<lambda>j. if j \<in> set (order @ [i]) then Some (vs ! j) else None) [0..<?n]) = Some vs"
    if "length (order @ [i]) = ?n"
  proof -
    from snoc.prems that have "set (order @ [i]) = {..<?n}"
      by (intro complete_order) simp_all
    then have "map (\<lambda>j. if j \<in> set (order @ [i]) then Some (vs ! j) else None) [0..<?n]
        = map Some (map (\<lambda>j. vs ! j) [0..<?n])"
      by (simp del: set_append)
    also have "\<dots> = map Some vs"
      by (simp add: map_nth)
    finally show ?thesis
      by (simp only: those_map_Some)
  qed
  have step: "foldl (on_settled (map Fulfilled vs)) (all_start (map Fulfilled vs)) (order @ [i])
      = on_settled (map Fulfilled vs)
          \<lparr>slots = map (\<lambda>j. if j \<in> set order then Some (vs ! j) else None) [0..<?n],
           remaining = ?n - length order, outcome = None\<rparr> i"
    by (simp only: foldl_append foldl_Cons foldl_Nil before)
  show ?case
  proof (cases "length (order @ [i]) = ?n")
    case True
    with i slots1 last full [OF True] show ?thesis
      unfolding step by (simp add: on_settled_def Let_def del: set_append)
  next
    case False
    with i slots1 last show ?thesis
      unfolding step by (simp add: on_settled_def Let_def del: set_append)
  qed
qed

lemma Promise_all_fulfilled:
  assumes "distinct order" and "set order \<subseteq> {..<length vs}"
  shows "Promise_all (map Fulfilled vs) order =
           (if length order = length vs then Some (Inr vs) else None)"
  by (simp add: Promise_all_def foldl_on_settled_fulfilled [OF assms])

lemma delegateParallel_settled:
  assumes "distinct order" and "set order \<subseteq> {..<length tasks}"
  shows "delegateParallel subAgents api tasks order =
           (if length order = length tasks
            then Some (Inr (map (branch_result subAgents api) tasks)) else None)"
proof -
  let ?vs = "map (branch_result subAgents api) tasks"
  have eq: "delegateParallel subAgents api tasks order = Promise_all (map Fulfilled ?vs) order"
    by (simp add: delegateParallel_def parallel_branch_def [abs_def] comp_def)
  from assms(2) have "set order \<subseteq> {..<length ?vs}"
    by simp
  from Promise_all_fulfilled [OF assms(1) this]
  have "Promise_all (map Fulfilled ?vs) order =
          (if length order = length ?vs then Some (Inr ?vs) else None)" .
  then show ?thesis
    unfolding eq by (simp only: length_map)
qed

text \<open>
  Claim C4. Let the branches of \<open>delegateParallel\<close> finish in any order
  (\<open>settle_order\<close> lists the positions of the branches that have finished, each once).
  Once all have finished the call returns one result per task, and the result at
  position \<open>i\<close> is the one of task \<open>i\<close> and carries its agent name, whatever the order
  was. While a branch is still running the call has not returned.
\<close>

theorem delegateParallel_results_in_task_order:
  assumes "distinct settle_order" and "set settle_order \<subseteq> {..<length tasks}"
  shows "(length settle_order = length tasks \<longrightarrow>
            (\<exists>rs. delegateParallel subAgents api tasks settle_order = Some (Inr rs)
                  \<and> length rs = length tasks
                  \<and> (\<forall>i<length tasks.
                        rs ! i = branch_result subAgents api (tasks ! i)
                        \<and> res_agentName (rs ! i) = task_agentName (tasks ! i))))
         \<and> (length settle_order < length tasks \<longrightarrow>
              delegateParallel subAgents api tasks settle_order = None)"
proof (intro conjI impI)
  assume full: "length settle_order = length tasks"
  let ?rs = "map (branch_result subAgents api) tasks"
  have "delegateParallel subAgents api tasks settle_order = Some (Inr ?rs)"
    using delegateParallel_settled [OF assms] full by simp
  moreover have "length ?rs = length tasks"
    by simp
  moreover have "\<forall>i<length tasks.
      ?rs ! i = branch_result subAgents api (tasks ! i)
      \<and> res_agentName (?rs ! i) = task_agentName (tasks ! i)"
    by (simp add: branch_result_def split: sum.splits)
  ultimately show "\<exists>rs. delegateParallel subAgents api tasks settle_order = Some (Inr rs)
                  \<and> length rs = length tasks
                  \<and> (\<forall>i<length tasks.
                        rs ! i = branch_result subAgents api (tasks ! i)
                        \<and> res_agentName (rs ! i) = task_agentName (tasks ! i))"
    by blast
next
  assume "length settle_order < length tasks"
  then show "delegateParallel subAgents api tasks settle_order = None"
    using delegateParallel_settled [OF assms] by simp
qed

text \<open>
  C4 on three tasks A, B, C whose branches finish in the order B, C, A: the results
  come back as A, B, C.
\<close>

theorem delegateParallel_results_in_task_order_witness:
  "distinct [1, 2, 0 :: nat]
   \<and> set [1, 2, 0 :: nat]
        \<subseteq> {..<length [\<lparr>task_agentName = ''A'', task_prompt = ''slow''\<rparr>,
                         \<lparr>task_agentName = ''B'', task_prompt = ''fast''\<rparr>,
                         \<lparr>task_agentName = ''C'', task_prompt = ''medium''\<rparr>]}
   \<and> (\<exists>rs. delegateParallel [] (\<lambda>r. Inr [TextBlock (req_user r)])
              [\<lparr>task_agentName = ''A'', task_prompt = ''slow''\<rparr>,
               \<lparr>task_agentName = ''B'', task_prompt = ''fast''\<rparr>,
               \<lparr>task_agentName = ''C'', task_prompt = ''medium''\<rparr>] [1, 2, 0] = Some (Inr rs)
          \<and> length rs = 3
          \<and> res_agentName (rs ! 0) = ''A''
          \<and> res_agentName (rs ! 1) = ''B''
          \<and> res_agentName (rs ! 2) = ''C'')"
proof -
  let ?tasks = "[\<lparr>task_agentName = ''A'', task_prompt = ''slow''\<rparr>,
                 \<lparr>task_agentName = ''B'', task_prompt = ''fast''\<rparr>,
                 \<lparr>task_agentName = ''C'', task_prompt = ''medium''\<rparr>]"
  have d: "distinct [1, 2, 0 :: nat]" by simp
  have sub: "set [1, 2, 0 :: nat] \<subseteq> {..<length ?tasks}" by simp
  have len: "length [1, 2, 0 :: nat] = length ?tasks" by simp
  from delegateParallel_results_in_task_order [OF d sub] len
  obtain rs where run: "delegateParallel [] (\<lambda>r. Inr [TextBlock (req_user r)]) ?tasks [1, 2, 0]
        = Some (Inr rs)"
    and n: "length rs = length ?tasks"
    and each: "\<forall>i<length ?tasks. res_agentName (rs ! i) = task_agentName (?tasks ! i)"
    by blast
  from each have "res_agentName (rs ! 0) = ''A''" "res_agentName (rs ! 1) = ''B''"
    "res_agentName (rs ! 2) = ''C''"
    by simp_all
  with run n d sub show ?thesis
    by auto
qed

text \<open>
  Claim C6. Once every branch of \<open>delegateParallel\<close> has finished, in whatever order,
  the call returns normally (it does not throw) with one result per task. A branch
  whose agent is not registered, or whose delegation throws anything else, gives the
  empty result with that error; a branch whose delegation succeeds gives its result
  and no error, whatever its siblings did.
\<close>

theorem delegateParallel_isolates_failures:
  assumes "distinct settle_order" and "set settle_order \<subseteq> {..<length tasks}"
    and "length settle_order = length tasks"
  shows "\<exists>rs. delegateParallel subAgents api tasks settle_order = Some (Inr rs)
          \<and> length rs = length tasks
          \<and> (\<forall>i<length tasks.
               (map_of subAgents (task_agentName (tasks ! i)) = None \<longrightarrow>
                  rs ! i = \<lparr>res_agentName = task_agentName (tasks ! i), res_result = [],
                            res_error = Some (AgentNotFound (task_agentName (tasks ! i)))\<rparr>)
               \<and> (\<forall>e. delegateToSubAgent subAgents api
                          (task_agentName (tasks ! i)) (task_prompt (tasks ! i)) = Inl e \<longrightarrow>
                  rs ! i = \<lparr>res_agentName = task_agentName (tasks ! i), res_result = [],
                            res_error = Some e\<rparr>)
               \<and> (\<forall>r. delegateToSubAgent subAgents api
                          (task_agentName (tasks ! i)) (task_prompt (tasks ! i)) = Inr r \<longrightarrow>
                  rs ! i = \<lparr>res_agentName = task_agentName (tasks ! i), res_result = r,
                            res_error = None\<rparr>))"
proof -
  let ?rs = "map (branch_result subAgents api) tasks"
  have "delegateParallel subAgents api tasks settle_order = Some (Inr ?rs)"
    using delegateParallel_settled [OF assms(1,2)] assms(3) by simp
  moreover have "length ?rs = length tasks"
    by simp
  moreover have "\<forall>i<length tasks.
               (map_of subAgents (task_agentName (tasks ! i)) = None \<longrightarrow>
                  ?rs ! i = \<lparr>res_agentName = task_agentName (tasks ! i), res_result = [],
                            res_error = Some (AgentNotFound (task_agentName (tasks ! i)))\<rparr>)
               \<and> (\<forall>e. delegateToSubAgent subAgents api
                          (task_agentName (tasks ! i)) (task_prompt (tasks ! i)) = Inl e \<longrightarrow>
                  ?rs ! i = \<lparr>res_agentName = task_agentName (tasks ! i), res_result = [],
                            res_error = Some e\<rparr>)
               \<and> (\<forall>r. delegateToSubAgent subAgents api
                          (task_agentName (tasks ! i)) (task_prompt (tasks ! i)) = Inr r \<longrightarrow>
                  ?rs ! i = \<lparr>res_agentName = task_agentName (tasks ! i), res_result = r,
                            res_error = None\<rparr>)"
    by (simp add: branch_result_def delegateToSubAgent_def)
  ultimately show ?thesis
    by blast
qed

text \<open>
  C6 on a task for an agent that is not registered followed by a task for a
  registered one, the second finishing first.
\<close>

theorem delegateParallel_isolates_failures_witness:
  "distinct [1, 0 :: nat]
   \<and> set [1, 0 :: nat]
        \<subseteq> {..<length [\<lparr>task_agentName = ''ghost'', task_prompt = ''first''\<rparr>,
                         \<lparr>task_agentName = ''writer'', task_prompt = ''second''\<rparr>]}
   \<and> map_of [(''writer'', \<lparr>cfg_name = ''writer'', cfg_systemPrompt = ''You write.'',
                             cfg_model = None\<rparr>)] ''ghost'' = None
   \<and> (\<exists>rs. delegateParallel
              [(''writer'', \<lparr>cfg_name = ''writer'', cfg_systemPrompt = ''You write.'',
                             cfg_model = None\<rparr>)]
              (\<lambda>r. Inr [TextBlock (req_user r)])
              [\<lparr>task_agentName = ''ghost'', task_prompt = ''first''\<rparr>,
               \<lparr>task_agentName = ''writer'', task_prompt = ''second''\<rparr>] [1, 0] = Some (Inr rs)
          \<and> length rs = 2
          \<and> rs ! 0 = \<lparr>res_agentName = ''ghost'', res_result = [],
                        res_error = Some (AgentNotFound ''ghost'')\<rparr>
          \<and> rs ! 1 = \<lparr>res_agentName = ''writer'', res_result = ''second'', res_error = None\<rparr>)"
proof -
  let ?reg = "[(''writer'', \<lparr>cfg_name = ''writer'', cfg_systemPrompt = ''You write.'',
                             cfg_model = None\<rparr>)]"
  let ?api = "\<lambda>r. Inr [TextBlock (req_user r)] :: js_error + ContentBlock list"
  let ?tasks = "[\<lparr>task_agentName = ''ghost'', task_prompt = ''first''\<rparr>,
                 \<lparr>task_agentName = ''writer'', task_prompt = ''second''\<rparr>]"
  have d: "distinct [1, 0 :: nat]" by simp
  have sub: "set [1, 0 :: nat] \<subseteq> {..<length ?tasks}" by simp
  have len: "length [1, 0 :: nat] = length ?tasks" by simp
  have ghost: "map_of ?reg ''ghost'' = None" by simp
  have writer: "delegateToSubAgent ?reg ?api ''writer'' ''second'' = Inr ''second''"
    by (simp add: delegateToSubAgent_def execute_def)
  from delegateParallel_isolates_failures [OF d sub len, of ?reg ?api]
  obtain rs where run: "delegateParallel ?reg ?api ?tasks [1, 0] = Some (Inr rs)"
    and n: "length rs = length ?tasks"
    and each: "\<forall>i<length ?tasks.
               (map_of ?reg (task_agentName (?tasks ! i)) = None \<longrightarrow>
                  rs ! i = \<lparr>res_agentName = task_agentName (?tasks ! i), res_result = [],
                            res_error = Some (AgentNotFound (task_agentName (?tasks ! i)))\<rparr>)
               \<and> (\<forall>r. delegateToSubAgent ?reg ?api
                          (task_agentName (?tasks ! i)) (task_prompt (?tasks ! i)) = Inr r \<longrightarrow>
                  rs ! i = \<lparr>res_agentName = task_agentName (?tasks ! i), res_result = r,
                            res_error = None\<rparr>)"
    by blast
  from each have "map_of ?reg (task_agentName (?tasks ! 0)) = None \<longrightarrow>
                  rs ! 0 = \<lparr>res_agentName = task_agentName (?tasks ! 0), res_result = [],
                            res_error = Some (AgentNotFound (task_agentName (?tasks ! 0)))\<rparr>"
    by simp
  with ghost have r0: "rs ! 0 = \<lparr>res_agentName = ''ghost'', res_result = [],
                        res_error = Some (AgentNotFound ''ghost'')\<rparr>"
    by simp
  from each have "\<forall>r. delegateToSubAgent ?reg ?api
                          (task_agentName (?tasks ! 1)) (task_prompt (?tasks ! 1)) = Inr r \<longrightarrow>
                  rs ! 1 = \<lparr>res_agentName = task_agentName (?tasks ! 1), res_result = r,
                            res_error = None\<rparr>"
    by simp
  with writer have r1: "rs ! 1 = \<lparr>res_agentName = ''writer'', res_result = ''second'',
                                   res_error = None\<rparr>"
    by simp
  from run n r0 r1 d sub ghost show ?thesis
    by auto
qed

section \<open>Properties of the statistics\<close>

text \<open>
  The rounding of the number model: the exponent found for a fraction is not above
  the fraction, and the nearest integer is at most one half away. So a fraction below
  \<open>2 ^ (E + 1)\<close> becomes a number at most \<open>2 ^ (E - 53)\<close> away from it.
\<close>

lemma bitlen_pos: "0 < n \<Longrightarrow> bitlen n = Suc (bitlen (n div 2))"
  by (subst bitlen.simps) simp

lemma bitlen_bounds: "0 < n \<Longrightarrow> 2 ^ (bitlen n - 1) \<le> n \<and> n < 2 ^ bitlen n"
proof (induction n rule: bitlen.induct)
  case (1 n)
  show ?case
  proof (cases "n div 2 = 0")
    case True
    with "1.prems" have "n = 1" by presburger
    then show ?thesis
      by (simp add: bitlen.simps)
  next
    case False
    with "1.IH" have IH: "2 ^ (bitlen (n div 2) - 1) \<le> n div 2" "n div 2 < 2 ^ bitlen (n div 2)"
      by simp_all
    from False have "bitlen (n div 2) = Suc (bitlen (n div 2) - 1)"
      by (simp add: bitlen_pos)
    then have "(2::nat) ^ bitlen (n div 2) = 2 * 2 ^ (bitlen (n div 2) - 1)"
      by (metis power_Suc)
    with IH(1) have low: "(2::nat) ^ bitlen (n div 2) \<le> n"
      by presburger
    from IH(2) have high: "n < 2 * 2 ^ bitlen (n div 2)"
      by presburger
    from low high show ?thesis
      by (simp add: bitlen_pos [OF "1.prems"])
  qed
qed

lemma binary_exponent_le:
  assumes "0 < n" and "0 < d"
  shows "(2::real) powi (binary_exponent n d) \<le> real n / real d"
proof -
  let ?g = "int (bitlen n) - int (bitlen d)"
  show ?thesis
  proof (cases "if 0 \<le> ?g then d * 2 ^ nat ?g \<le> n else d \<le> n * 2 ^ nat (- ?g)")
    case True
    then have e: "binary_exponent n d = ?g"
      by (simp add: binary_exponent_def Let_def)
    show ?thesis
    proof (cases "0 \<le> ?g")
      case nonneg: True
      with True have "d * 2 ^ nat ?g \<le> n" by simp
      then have "real d * 2 ^ nat ?g \<le> real n"
        by (metis of_nat_le_iff of_nat_mult of_nat_numeral of_nat_power)
      then have "(2::real) ^ nat ?g \<le> real n / real d"
        using assms(2) by (simp add: field_simps)
      with nonneg show ?thesis
        by (simp add: e power_int_nonneg_exp)
    next
      case neg: False
      with True have "d \<le> n * 2 ^ nat (- ?g)" by simp
      then have "real d \<le> real n * 2 ^ nat (- ?g)"
        by (metis of_nat_le_iff of_nat_mult of_nat_numeral of_nat_power)
      then have "1 / (2::real) ^ nat (- ?g) \<le> real n / real d"
        using assms(2) by (simp add: field_simps)
      moreover from neg have "(2::real) powi ?g = 1 / 2 ^ nat (- ?g)"
        by (simp add: power_int_def field_simps)
      ultimately show ?thesis
        by (simp add: e)
    qed
  next
    case False
    then have e: "binary_exponent n d = ?g - 1"
      by (simp add: binary_exponent_def Let_def)
    from bitlen_bounds [OF assms(1)] have n: "real (2 ^ (bitlen n - 1)) \<le> real n"
      using of_nat_le_iff by blast
    from bitlen_bounds [OF assms(2)] have d: "real d \<le> real (2 ^ bitlen d)"
      using of_nat_le_iff less_imp_le by blast
    from assms(1) have bn: "0 < bitlen n"
      by (simp add: bitlen_pos)
    then have g1: "?g - 1 = int (bitlen n - 1) - int (bitlen d)"
      by simp
    have "(2::real) powi (int (bitlen n - 1) - int (bitlen d))
        = 2 powi int (bitlen n - 1) / 2 powi int (bitlen d)"
      by (rule power_int_diff) simp
    then have "(2::real) powi (?g - 1) = 2 ^ (bitlen n - 1) / 2 ^ bitlen d"
      by (simp only: g1 power_int_of_nat)
    also have "\<dots> \<le> real n / real d"
      using n d assms(2) by (intro frac_le) simp_all
    finally show ?thesis
      by (simp add: e)
  qed
qed

text \<open>The exponent is the right one from above as well: the leading bit is bit 52.\<close>

lemma binary_exponent_gt:
  assumes "0 < n" and "0 < d"
  shows "real n / real d < 2 powi (binary_exponent n d + 1)"
proof -
  let ?g = "int (bitlen n) - int (bitlen d)"
  show ?thesis
  proof (cases "if 0 \<le> ?g then d * 2 ^ nat ?g \<le> n else d \<le> n * 2 ^ nat (- ?g)")
    case True
    then have e: "binary_exponent n d = ?g"
      by (simp add: binary_exponent_def Let_def)
    from bitlen_bounds [OF assms(1)] have n: "real n < real (2 ^ bitlen n)"
      using of_nat_less_iff by blast
    from bitlen_bounds [OF assms(2)] have d: "real (2 ^ (bitlen d - 1)) \<le> real d"
      using of_nat_le_iff by blast
    from assms(2) have "0 < bitlen d"
      by (simp add: bitlen_pos)
    then have g1: "?g + 1 = int (bitlen n) - int (bitlen d - 1)"
      by simp
    have "real n / real d < 2 ^ bitlen n / 2 ^ (bitlen d - 1)"
      using n d by (intro frac_less) simp_all
    also have "\<dots> = 2 powi int (bitlen n) / 2 powi int (bitlen d - 1)"
      by (simp only: power_int_of_nat)
    also have "\<dots> = 2 powi (int (bitlen n) - int (bitlen d - 1))"
      by (rule power_int_diff [symmetric]) simp
    finally show ?thesis
      by (simp only: e g1)
  next
    case False
    then have e: "binary_exponent n d = ?g - 1"
      by (simp add: binary_exponent_def Let_def)
    have "real n / real d < 2 powi ?g"
    proof (cases "0 \<le> ?g")
      case nonneg: True
      with False have "n < d * 2 ^ nat ?g" by simp
      then have "real n < real d * 2 ^ nat ?g"
        by (metis of_nat_less_iff of_nat_mult of_nat_numeral of_nat_power)
      then have "real n / real d < 2 ^ nat ?g"
        using assms(2) by (simp add: field_simps)
      with nonneg show ?thesis
        by (simp add: power_int_nonneg_exp)
    next
      case neg: False
      with False have "n * 2 ^ nat (- ?g) < d" by simp
      then have "real n * 2 ^ nat (- ?g) < real d"
        by (metis of_nat_less_iff of_nat_mult of_nat_numeral of_nat_power)
      then have "real n / real d < 1 / 2 ^ nat (- ?g)"
        using assms(2) by (simp add: field_simps)
      moreover from neg have "(2::real) powi ?g = 1 / 2 ^ nat (- ?g)"
        by (simp add: power_int_def field_simps)
      ultimately show ?thesis
        by simp
    qed
    then show ?thesis
      by (simp add: e)
  qed
qed

lemma round_ties_even_error:
  assumes "0 < d"
  shows "\<bar>real (round_ties_even N d) - real N / real d\<bar> \<le> 1 / 2"
proof -
  let ?q = "N div d" and ?r = "N mod d"
  have "N = ?q * d + ?r" by simp
  then have "real N = real ?q * real d + real ?r"
    by (metis of_nat_add of_nat_mult)
  then have frac: "real N / real d = real ?q + real ?r / real d"
    using assms by (simp add: field_simps)
  have r: "real ?r < real d"
    using assms by simp
  consider "2 * ?r < d" | "d < 2 * ?r" | "2 * ?r = d" by linarith
  then show ?thesis
  proof cases
    case 1
    then have "2 * real ?r < real d" by linarith
    then have "real ?r / real d < 1 / 2"
      using assms by (simp add: field_simps)
    moreover have "0 \<le> real ?r / real d" by simp
    ultimately show ?thesis
      using 1 by (simp add: round_ties_even_def Let_def frac)
  next
    case 2
    then have "real d < 2 * real ?r" by linarith
    then have "1 / 2 < real ?r / real d"
      using assms by (simp add: field_simps)
    moreover have "real ?r / real d < 1"
      using r assms by simp
    ultimately show ?thesis
      using 2 by (simp add: round_ties_even_def Let_def frac)
  next
    case 3
    then have "2 * real ?r = real d" by (metis of_nat_mult of_nat_numeral)
    then have "real ?r / real d = 1 / 2"
      using assms by (simp add: field_simps)
    then show ?thesis
      using 3 by (simp add: round_ties_even_def Let_def frac)
  qed
qed

lemma to_double_error:
  assumes "0 < d" and "real n / real d < 2 powi (E + 1)"
  shows "\<bar>double_val (to_double n d) - real n / real d\<bar> \<le> 2 powi (E - 53)"
proof (cases "n = 0")
  case True
  then show ?thesis
    by (simp add: to_double_def double_val_def)
next
  case False
  then have n: "0 < n" by simp
  let ?e = "binary_exponent n d"
  let ?k = "?e - 52"
  have "(2::real) powi ?e < 2 powi (E + 1)"
    using binary_exponent_le [OF n assms(1)] assms(2) by linarith
  then have "\<not> E + 1 \<le> ?e"
    using power_int_increasing [of "E + 1" ?e "2::real"] by auto
  then have "?k - 1 \<le> E - 53" by simp
  then have bound: "(2::real) powi (?k - 1) \<le> 2 powi (E - 53)"
    by (intro power_int_increasing) simp_all
  have half: "(2::real) powi ?k * (1 / 2) = 2 powi (?k - 1)"
    by (simp add: power_int_diff)
  show ?thesis
  proof (cases "?k \<le> 0")
    case True
    let ?j = "nat (- ?k)"
    let ?m = "round_ties_even (n * 2 ^ ?j) d"
    from True have pk: "(2::real) powi ?k = 1 / 2 ^ ?j"
      by (simp add: power_int_def field_simps)
    have "\<bar>real ?m - real (n * 2 ^ ?j) / real d\<bar> \<le> 1 / 2"
      by (rule round_ties_even_error [OF assms(1)])
    then have "\<bar>real ?m - real n * 2 ^ ?j / real d\<bar> \<le> 1 / 2"
      by simp
    then have "(2::real) powi ?k * \<bar>real ?m - real n * 2 ^ ?j / real d\<bar> \<le> 2 powi ?k * (1 / 2)"
      by (intro mult_left_mono) simp_all
    moreover have "(2::real) powi ?k * \<bar>real ?m - real n * 2 ^ ?j / real d\<bar>
        = \<bar>real ?m * 2 powi ?k - real n / real d\<bar>"
    proof -
      have "(2::real) powi ?k * \<bar>real ?m - real n * 2 ^ ?j / real d\<bar>
          = \<bar>2 powi ?k * (real ?m - real n * 2 ^ ?j / real d)\<bar>"
        by (simp add: abs_mult)
      also have "2 powi ?k * (real ?m - real n * 2 ^ ?j / real d)
          = real ?m * 2 powi ?k - real n / real d"
        by (simp add: pk field_simps)
      finally show ?thesis .
    qed
    moreover have "double_val (to_double n d) = real ?m * 2 powi ?k"
      using False True by (simp add: to_double_def double_val_def Let_def)
    ultimately have "\<bar>double_val (to_double n d) - real n / real d\<bar> \<le> 2 powi (?k - 1)"
      by (simp only: half)
    with bound show ?thesis by linarith
  next
    case False
    let ?j = "nat ?k"
    let ?m = "round_ties_even n (d * 2 ^ ?j)"
    from False have pk: "(2::real) powi ?k = 2 ^ ?j"
      by (simp add: power_int_def)
    have "0 < d * 2 ^ ?j"
      using assms(1) by simp
    then have "\<bar>real ?m - real n / real (d * 2 ^ ?j)\<bar> \<le> 1 / 2"
      by (rule round_ties_even_error)
    then have "\<bar>real ?m - real n / (real d * 2 ^ ?j)\<bar> \<le> 1 / 2"
      by simp
    then have "(2::real) powi ?k * \<bar>real ?m - real n / (real d * 2 ^ ?j)\<bar> \<le> 2 powi ?k * (1 / 2)"
      by (intro mult_left_mono) simp_all
    moreover have "(2::real) powi ?k * \<bar>real ?m - real n / (real d * 2 ^ ?j)\<bar>
        = \<bar>real ?m * 2 powi ?k - real n / real d\<bar>"
    proof -
      have "(2::real) powi ?k * \<bar>real ?m - real n / (real d * 2 ^ ?j)\<bar>
          = \<bar>2 powi ?k * (real ?m - real n / (real d * 2 ^ ?j))\<bar>"
        by (simp add: abs_mult)
      also have "2 powi ?k * (real ?m - real n / (real d * 2 ^ ?j))
          = real ?m * 2 powi ?k - real n / real d"
        by (simp add: pk field_simps)
      finally show ?thesis .
    qed
    moreover have "double_val (to_double n d) = real ?m * 2 powi ?k"
      using \<open>n \<noteq> 0\<close> False by (simp add: to_double_def double_val_def Let_def)
    ultimately have "\<bar>double_val (to_double n d) - real n / real d\<bar> \<le> 2 powi (?k - 1)"
      by (simp only: half)
    with bound show ?thesis by linarith
  qed
qed

lemma js_times_error:
  assumes "double_val x * real n < 2 powi (E + 1)"
  shows "\<bar>double_val (js_times x n) - double_val x * real n\<bar> \<le> 2 powi (E - 53)"
proof (cases "0 \<le> snd x")
  case True
  let ?N = "fst x * n * 2 ^ nat (snd x)"
  from True have v: "real ?N / real 1 = double_val x * real n"
    by (simp add: double_val_def power_int_def)
  have small: "real ?N / real 1 < 2 powi (E + 1)"
    using assms by (simp only: v)
  have "\<bar>double_val (to_double ?N 1) - real ?N / real 1\<bar> \<le> 2 powi (E - 53)"
    by (rule to_double_error [OF zero_less_one small])
  with True show ?thesis
    by (simp only: v js_times_def if_True)
next
  case False
  let ?N = "fst x * n" and ?D = "(2::nat) ^ nat (- snd x)"
  from False have v: "real ?N / real ?D = double_val x * real n"
    by (simp add: double_val_def power_int_def field_simps)
  have small: "real ?N / real ?D < 2 powi (E + 1)"
    using assms by (simp only: v)
  have pos: "0 < ?D"
    by simp
  have "\<bar>double_val (to_double ?N ?D) - real ?N / real ?D\<bar> \<le> 2 powi (E - 53)"
    by (rule to_double_error [OF pos small])
  with False show ?thesis
    by (simp only: v js_times_def if_False)
qed

lemma Math_round_floor: "int (Math_round x) = \<lfloor>double_val x + 1 / 2\<rfloor>"
proof (cases "0 \<le> snd x")
  case True
  then have "double_val x = real (fst x * 2 ^ nat (snd x))"
    by (simp add: double_val_def power_int_def)
  then have "\<lfloor>double_val x + 1 / 2\<rfloor> = int (fst x * 2 ^ nat (snd x))"
    by (simp only:) linarith
  with True show ?thesis
    by (simp add: Math_round_def)
next
  case False
  let ?p = "(2::nat) ^ nat (- snd x)"
  from False have "double_val x = real (fst x) / real ?p"
    by (simp add: double_val_def power_int_def field_simps)
  then have "double_val x + 1 / 2 = real_of_int (int (2 * fst x + ?p)) / real_of_int (int (2 * ?p))"
    by (simp add: field_simps)
  then have "\<lfloor>double_val x + 1 / 2\<rfloor> = int (2 * fst x + ?p) div int (2 * ?p)"
    by (simp only: floor_divide_of_int_eq)
  also have "\<dots> = int ((2 * fst x + ?p) div (2 * ?p))"
    by (simp only: zdiv_int)
  finally show ?thesis
    using False by (simp add: Math_round_def)
qed

text \<open>
  The computed percentage before \<open>Math.round\<close>: the quotient is rounded once, the
  product once more, and the two errors stay below \<open>164 / 2 ^ 53\<close>. For lists shorter
  than \<open>2 ^ 32\<close> (the bound on the length of an array) that is less than the distance
  of \<open>100 * c / t\<close> from the nearest half-integer, unless it is one.
\<close>

lemma percent_error:
  assumes "0 < t" and "c \<le> t"
  shows "\<bar>double_val (js_times (js_divide c t) 100) - 100 * real c / real t\<bar> \<le> 164 / 2 ^ 53"
proof -
  let ?x1 = "double_val (js_divide c t)"
  let ?x2 = "double_val (js_times (js_divide c t) 100)"
  from assms have "real c / real t \<le> 1"
    by simp
  then have "real c / real t < 2 powi (0 + 1)"
    by simp
  from to_double_error [OF assms(1) this]
  have e1: "\<bar>?x1 - real c / real t\<bar> \<le> 1 / 2 ^ 53"
    by (simp add: js_divide_def)
  with \<open>real c / real t \<le> 1\<close> have "?x1 \<le> 1 + 1 / 2 ^ 53"
    by linarith
  then have "?x1 * real 100 < 2 powi (6 + 1)"
    by simp
  from js_times_error [OF this]
  have e2: "\<bar>?x2 - ?x1 * 100\<bar> \<le> 1 / 2 ^ 47"
    by simp
  define u :: real where "u = 1 / 2 ^ 53"
  have "(1::real) / 2 ^ 47 = 64 * u" and "(164::real) / 2 ^ 53 = 164 * u"
    by (simp_all add: u_def)
  with e1 e2 have "\<bar>?x1 - real c / real t\<bar> \<le> u" and "\<bar>?x2 - ?x1 * 100\<bar> \<le> 64 * u"
    by (simp_all only: u_def)
  then have "\<bar>?x2 - 100 * (real c / real t)\<bar> \<le> 164 * u"
    by linarith
  then show ?thesis
    by (simp add: u_def)
qed

lemma percent_nearest:
  assumes "0 < t" and "c \<le> t" and "t < 2 ^ 32"
  shows "((200 * c + t) mod (2 * t) \<noteq> 0 \<longrightarrow>
           Math_round (js_times (js_divide c t) 100) = (200 * c + t) div (2 * t))
         \<and> (Math_round (js_times (js_divide c t) 100) = (200 * c + t) div (2 * t)
            \<or> Suc (Math_round (js_times (js_divide c t) 100)) = (200 * c + t) div (2 * t))"
proof -
  let ?p = "Math_round (js_times (js_divide c t) 100)"
  let ?R = "(200 * c + t) div (2 * t)" and ?rho = "(200 * c + t) mod (2 * t)"
  define z where "z = double_val (js_times (js_divide c t) 100) + 1 / 2"
  define w where "w = real (200 * c + t) / real (2 * t)"
  have p: "int ?p = \<lfloor>z\<rfloor>"
    by (simp only: z_def Math_round_floor)
  have "w = 100 * real c / real t + 1 / 2"
    using assms(1) by (simp add: w_def field_simps)
  with percent_error [OF assms(1,2)] have close: "\<bar>z - w\<bar> \<le> 164 / 2 ^ 53"
    by (simp add: z_def)
  have "200 * c + t = ?R * (2 * t) + ?rho"
    by (rule div_mult_mod_eq [symmetric])
  then have "real (200 * c + t) = real ?R * real (2 * t) + real ?rho"
    by (metis of_nat_add of_nat_mult)
  then have w: "w = real ?R + real ?rho / real (2 * t)"
    using assms(1) by (simp add: w_def field_simps)
  from assms(3) have "real (2 * t) \<le> 2 ^ 33"
    by simp
  then have "1 / 2 ^ 33 \<le> 1 / real (2 * t)"
    using assms(1) by (intro divide_left_mono) simp_all
  then have gap: "164 / 2 ^ 53 < 1 / real (2 * t)"
    by simp
  have exact: "?p = ?R" if "?rho \<noteq> 0"
  proof -
    from that have "1 \<le> real ?rho"
      by simp
    then have lo: "1 / real (2 * t) \<le> real ?rho / real (2 * t)"
      by (intro divide_right_mono) simp_all
    have "?rho < 2 * t"
      using assms(1) by simp
    then have "real ?rho \<le> real (2 * t) - 1"
      by linarith
    then have "real ?rho / real (2 * t) \<le> (real (2 * t) - 1) / real (2 * t)"
      by (intro divide_right_mono) simp_all
    also have "\<dots> = 1 - 1 / real (2 * t)"
      using assms(1) by (simp add: field_simps)
    finally have hi: "real ?rho / real (2 * t) \<le> 1 - 1 / real (2 * t)" .
    from close w lo hi gap have "real_of_int (int ?R) \<le> z \<and> z < real_of_int (int ?R) + 1"
      by (simp only: of_int_of_nat_eq) linarith
    then have "\<lfloor>z\<rfloor> = int ?R"
      by (intro floor_unique) simp_all
    with p show ?thesis
      by simp
  qed
  have near: "?p = ?R \<or> Suc ?p = ?R" if "?rho = 0"
  proof -
    from that w have "w = real ?R"
      by simp
    moreover have "(164::real) / 2 ^ 53 < 1"
      by simp
    ultimately have "real ?R - 1 < z" and "z < real ?R + 1"
      using close by linarith+
    then have "real_of_int (int ?R - 1) \<le> z" and "z < real_of_int (int ?R + 1)"
      by simp_all
    then have "int ?R - 1 \<le> \<lfloor>z\<rfloor>" and "\<lfloor>z\<rfloor> < int ?R + 1"
      by (simp_all only: le_floor_iff floor_less_iff)
    with p show ?thesis
      by linarith
  qed
  from exact near show ?thesis
    by blast
qed

lemma percent_is_nearest:
  assumes "0 < t" and "c \<le> t" and "t < 2 ^ 32"
  shows "\<bar>real (Math_round (js_times (js_divide c t) 100)) - 100 * real c / real t\<bar> \<le> 1 / 2
         \<and> (frac (100 * real c / real t) \<noteq> 1 / 2 \<longrightarrow>
              int (Math_round (js_times (js_divide c t) 100)) = round (100 * real c / real t))"
proof -
  let ?p = "Math_round (js_times (js_divide c t) 100)"
  let ?R = "(200 * c + t) div (2 * t)" and ?rho = "(200 * c + t) mod (2 * t)"
  define y where "y = 100 * real c / real t"
  have "200 * c + t = ?R * (2 * t) + ?rho"
    by (rule div_mult_mod_eq [symmetric])
  then have "real (200 * c + t) = real ?R * real (2 * t) + real ?rho"
    by (metis of_nat_add of_nat_mult)
  then have "real (200 * c + t) / real (2 * t) = real ?R + real ?rho / real (2 * t)"
    using assms(1) by (simp add: field_simps)
  moreover have "real (200 * c + t) / real (2 * t) = y + 1 / 2"
    using assms(1) by (simp add: y_def field_simps)
  ultimately have y: "y + 1 / 2 = real ?R + real ?rho / real (2 * t)"
    by simp
  from percent_nearest [OF assms]
  have exact: "?rho \<noteq> 0 \<Longrightarrow> ?p = ?R" and near: "?p = ?R \<or> Suc ?p = ?R"
    by blast+
  have "\<bar>real ?p - y\<bar> \<le> 1 / 2 \<and> (frac y \<noteq> 1 / 2 \<longrightarrow> int ?p = round y)"
  proof (cases "?rho = 0")
    case True
    with y have half: "y = real ?R - 1 / 2"
      by simp
    with near have "\<bar>real ?p - y\<bar> \<le> 1 / 2"
      by (auto simp: of_nat_Suc [symmetric] simp del: of_nat_Suc)
    moreover have "frac y = 1 / 2"
    proof -
      from half have "y - 1 / 2 = real_of_int (int ?R - 1)"
        by simp
      then have "y - 1 / 2 \<in> \<int>"
        by (simp only: Ints_of_int)
      moreover have "frac y = 1 / 2 \<longleftrightarrow> y - 1 / 2 \<in> \<int> \<and> (0::real) \<le> 1 / 2 \<and> (1 / 2 :: real) < 1"
        by (rule frac_unique_iff)
      ultimately show ?thesis
        by simp
    qed
    ultimately show ?thesis
      by simp
  next
    case False
    then have p: "?p = ?R"
      by (rule exact)
    from False have "0 < real ?rho"
      by simp
    then have lo: "0 < real ?rho / real (2 * t)"
      using assms(1) by simp
    have "?rho < 2 * t"
      using assms(1) by simp
    then have "real ?rho < real (2 * t)"
      by (simp only: of_nat_less_iff)
    then have hi: "real ?rho / real (2 * t) < 1"
      using assms(1) by simp
    from y lo hi have bounds: "real ?R < y + 1 / 2" "y + 1 / 2 < real ?R + 1"
      by linarith+
    then have "real_of_int (int ?R) \<le> y + 1 / 2" and "y + 1 / 2 < real_of_int (int ?R) + 1"
      by simp_all
    then have "\<lfloor>y + 1 / 2\<rfloor> = int ?R"
      by (rule floor_unique)
    then have "round y = int ?R"
      by (simp add: round_def)
    moreover from bounds have "\<bar>real ?R - y\<bar> \<le> 1 / 2"
      by linarith
    ultimately show ?thesis
      by (simp add: p)
  qed
  then show ?thesis
    unfolding y_def .
qed

lemma percent_all_completed:
  assumes "0 < t" and "t < 2 ^ 32"
  shows "Math_round (js_times (js_divide t t) 100) = 100"
proof -
  have "(200 * t + t) mod (2 * t) = t" and "(200 * t + t) div (2 * t) = 100"
    using assms(1) by (simp_all add: div_add1_eq mod_add_eq)
  with percent_nearest [OF assms(1) le_refl assms(2)] assms(1) show ?thesis
    by simp
qed

text \<open>What an accepted update stores, and the fields of \<open>getStats\<close>.\<close>

lemma forEach_check_all_pass:
  "(\<And>t i. t \<in> set ts \<Longrightarrow> check_todo i t = None) \<Longrightarrow> forEach_check k ts = None"
  by (induction ts arbitrary: k) simp_all

lemma validate_accepts:
  assumes "ts \<noteq> []" and "inProgressCount ts \<le> 1"
    and "\<And>t i. t \<in> set ts \<Longrightarrow> check_todo i t = None"
  shows "validate ts = Inr ()"
  using assms(1,2) forEach_check_all_pass [of ts 0, OF assms(3)]
  by (simp add: validate_def)

lemma update_accepted:
  assumes "fst (update ts st) = Inr u"
  shows "ts \<noteq> [] \<and> todos (fst (snd (update ts st))) = ts"
proof -
  from assms have ok: "validate ts = Inr ()"
    by (simp add: update_validate)
  then have "ts \<noteq> []"
    by (auto simp: validate_def)
  moreover from ok have "todos (fst (snd (update ts st))) = ts"
    by (simp add: update_def Let_def)
  ultimately show ?thesis
    by simp
qed

lemma getStats_fields:
  "total (getStats m) = length (todos m)"
  "pending (getStats m) = length (filter (\<lambda>t. status t = ''pending'') (todos m))"
  "inProgress (getStats m) = length (filter (\<lambda>t. status t = ''in_progress'') (todos m))"
  "completed (getStats m) = length (filter (\<lambda>t. status t = ''completed'') (todos m))"
  "progress (getStats m) =
     (if 0 < length (todos m)
      then Math_round (js_times (js_divide
             (length (filter (\<lambda>t. status t = ''completed'') (todos m))) (length (todos m))) 100)
      else 0)"
  by (simp_all add: getStats_def getByStatus_def Let_def)

lemma percent_23_of_40: "Math_round (js_times (js_divide 23 40) 100) = 57"
  by (simp add: js_divide_def js_times_def Math_round_def to_double_def binary_exponent_def
      round_ties_even_def bitlen.simps Let_def)

text \<open>
  The three steps of that computation: the quotient is the binary64 number nearest to
  \<open>0.575\<close>, the product the one just below \<open>57.5\<close>.
\<close>

lemma percent_23_of_40_steps:
  "js_divide 23 40 = (5179139571476070, - 53)"
  "js_times (5179139571476070, - 53) 100 = (8092405580431359, - 47)"
  "Math_round (8092405580431359, - 47) = 57"
  by (simp_all add: js_divide_def js_times_def Math_round_def to_double_def binary_exponent_def
      round_ties_even_def bitlen.simps Let_def)

text \<open>
  At other ties the code does round half up, as \<open>Math.round\<close> is meant to: 1 of 8 is
  \<open>12.5\<close>, both binary64 steps are exact, and the result is 13.
\<close>

lemma percent_1_of_8: "Math_round (js_times (js_divide 1 8) 100) = 13"
  by (simp add: js_divide_def js_times_def Math_round_def to_double_def binary_exponent_def
      round_ties_even_def bitlen.simps Let_def)

text \<open>The three other ratios below one at which the tie is lost in the same way.\<close>

lemma percent_lost_ties:
  "Math_round (js_times (js_divide 29 200) 100) = 14"
  "Math_round (js_times (js_divide 57 200) 100) = 28"
  "Math_round (js_times (js_divide 113 200) 100) = 56"
  by (simp_all add: js_divide_def js_times_def Math_round_def to_double_def binary_exponent_def
      round_ties_even_def bitlen.simps Let_def)

text \<open>
  Claim C9, at the input where the code departs from it. A list of 40 tasks of which
  23 are completed is accepted, and \<open>100 * 23 / 40\<close> is \<open>57.5\<close>, which rounds to 58 (half
  up, as \<open>Math.round\<close> does, and to even as well). The code computes \<open>23 / 40\<close> first;
  the nearest binary64 number lies below \<open>0.575\<close>, its product with 100 rounds to a
  number below \<open>57.5\<close>, and \<open>Math.round\<close> gives 57.
\<close>

theorem progress_23_of_40_is_57:
  "let ts = replicate 23 \<lparr>content = ''a'', status = ''completed'', activeForm = ''A-ing''\<rparr>
              @ replicate 17 \<lparr>content = ''b'', status = ''pending'', activeForm = ''B-ing''\<rparr>;
       st = (\<lparr>todos = [], todoFile = ''.todos.json''\<rparr>,
             \<lparr>files = (\<lambda>p. None), writable = (\<lambda>p. True)\<rparr>);
       S = getStats (fst (snd (update ts st)))
   in fst (update ts st) = Inr ()
      \<and> total S = 40 \<and> completed S = 23 \<and> progress S = 57
      \<and> round (100 * real (completed S) / real (total S)) = 58"
proof -
  let ?ts = "replicate 23 \<lparr>content = ''a'', status = ''completed'', activeForm = ''A-ing''\<rparr>
              @ replicate 17 \<lparr>content = ''b'', status = ''pending'', activeForm = ''B-ing''\<rparr>"
  let ?st = "(\<lparr>todos = [], todoFile = ''.todos.json''\<rparr>,
             \<lparr>files = (\<lambda>p. None), writable = (\<lambda>p. True)\<rparr>)"
  have "validate ?ts = Inr ()"
  proof (rule validate_accepts)
    show "?ts \<noteq> []" by simp
    show "inProgressCount ?ts \<le> 1" by (simp add: inProgressCount_def)
    show "check_todo i t = None" if "t \<in> set ?ts" for t i
    proof -
      have a: "check_todo i \<lparr>content = ''a'', status = ''completed'', activeForm = ''A-ing''\<rparr> = None"
        by (simp add: check_todo_def blank_def trim_def is_js_space_def)
      have b: "check_todo i \<lparr>content = ''b'', status = ''pending'', activeForm = ''B-ing''\<rparr> = None"
        by (simp add: check_todo_def blank_def trim_def is_js_space_def)
      from that have "t = \<lparr>content = ''a'', status = ''completed'', activeForm = ''A-ing''\<rparr>
          \<or> t = \<lparr>content = ''b'', status = ''pending'', activeForm = ''B-ing''\<rparr>"
        by (simp only: set_append set_replicate Un_iff) simp
      with a b show ?thesis
        by blast
    qed
  qed
  then have accepted: "fst (update ?ts ?st) = Inr ()"
    by (simp only: update_validate)
  from update_accepted [OF accepted] have stored: "todos (fst (snd (update ?ts ?st))) = ?ts"
    by (rule conjunct2)
  have total: "total (getStats (fst (snd (update ?ts ?st)))) = 40"
    by (simp add: getStats_fields stored)
  have completed: "completed (getStats (fst (snd (update ?ts ?st)))) = 23"
    by (simp add: getStats_fields stored)
  have "progress (getStats (fst (snd (update ?ts ?st)))) = Math_round (js_times (js_divide 23 40) 100)"
    by (simp add: getStats_fields stored)
  then have progress: "progress (getStats (fst (snd (update ?ts ?st)))) = 57"
    by (simp only: percent_23_of_40)
  have "round (100 * real 23 / real 40) = 58"
    by (simp add: round_def)
  with accepted total completed progress show ?thesis
    by (simp only: Let_def)
qed

text \<open>
  Where the code does agree with C9. After an accepted update of a list shorter than
  \<open>2 ^ 32\<close>, \<open>total\<close> is the length of the list, \<open>pending\<close>, \<open>inProgress\<close> and \<open>completed\<close>
  are the numbers of tasks of that status, and \<open>progress\<close> is at most one half away
  from \<open>100 * completed / total\<close> and equal to its rounding whenever that value does not
  lie exactly halfway between two integers. When every task is completed \<open>progress\<close>
  is 100, and for a manager with no task it is 0. The rounding errors of the quotient
  and the product can only show at an exact tie.
\<close>

theorem stats_after_accepted_update:
  fixes ts :: "Todo list" and st :: "TodoManager \<times> filesystem"
  defines "S \<equiv> getStats (fst (snd (update ts st)))"
  assumes "fst (update ts st) = Inr u" and "length ts < 2 ^ 32"
  shows "total S = length ts
     \<and> pending S = length (filter (\<lambda>t. status t = ''pending'') ts)
     \<and> inProgress S = length (filter (\<lambda>t. status t = ''in_progress'') ts)
     \<and> completed S = length (filter (\<lambda>t. status t = ''completed'') ts)
     \<and> \<bar>real (progress S) - 100 * real (completed S) / real (total S)\<bar> \<le> 1 / 2
     \<and> (frac (100 * real (completed S) / real (total S)) \<noteq> 1 / 2 \<longrightarrow>
          int (progress S) = round (100 * real (completed S) / real (total S)))
     \<and> (completed S = total S \<longrightarrow> progress S = 100)
     \<and> (todos m = [] \<longrightarrow> progress (getStats m) = 0)"
proof -
  let ?c = "length (filter (\<lambda>t. status t = ''completed'') ts)" and ?t = "length ts"
  from update_accepted [OF assms(2)] have ne: "ts \<noteq> []"
    and stored: "todos (fst (snd (update ts st))) = ts"
    by simp_all
  from ne have t: "0 < ?t" by simp
  have c: "?c \<le> ?t" by simp
  have fields: "total S = ?t"
    "pending S = length (filter (\<lambda>t. status t = ''pending'') ts)"
    "inProgress S = length (filter (\<lambda>t. status t = ''in_progress'') ts)"
    "completed S = ?c"
    by (simp_all add: S_def getStats_fields stored)
  from t have p: "progress S = Math_round (js_times (js_divide ?c ?t) 100)"
    by (simp add: S_def getStats_fields stored)
  note both = percent_is_nearest [OF t c assms(3)]
  have near: "\<bar>real (progress S) - 100 * real (completed S) / real (total S)\<bar> \<le> 1 / 2"
    unfolding p fields by (rule conjunct1 [OF both])
  have exact: "frac (100 * real (completed S) / real (total S)) \<noteq> 1 / 2 \<longrightarrow>
          int (progress S) = round (100 * real (completed S) / real (total S))"
    unfolding p fields by (rule conjunct2 [OF both])
  have full: "completed S = total S \<longrightarrow> progress S = 100"
    using percent_all_completed [OF t assms(3)] by (simp add: p fields)
  have empty: "todos m = [] \<longrightarrow> progress (getStats m) = 0"
    by (simp add: getStats_fields)
  from fields near exact full empty show ?thesis
    by (simp only: simp_thms)
qed

text \<open>
  The scenario of the single task that is first stored as pending and then as
  completed: the second update is accepted and the statistics are total 1,
  completed 1, progress 100.
\<close>

theorem stats_single_completed_task:
  "let st1 = snd (update [\<lparr>content = ''a'', status = ''pending'', activeForm = ''A-ing''\<rparr>]
                   (\<lparr>todos = [], todoFile = ''.todos.json''\<rparr>,
                    \<lparr>files = (\<lambda>p. None), writable = (\<lambda>p. True)\<rparr>));
       ts = [\<lparr>content = ''a'', status = ''completed'', activeForm = ''A-ing''\<rparr>];
       S = getStats (fst (snd (update ts st1)))
   in fst (update ts st1) = Inr () \<and> length ts < 2 ^ 32
      \<and> total S = 1 \<and> completed S = 1 \<and> progress S = 100"
proof -
  let ?st1 = "snd (update [\<lparr>content = ''a'', status = ''pending'', activeForm = ''A-ing''\<rparr>]
                   (\<lparr>todos = [], todoFile = ''.todos.json''\<rparr>,
                    \<lparr>files = (\<lambda>p. None), writable = (\<lambda>p. True)\<rparr>))"
  let ?ts = "[\<lparr>content = ''a'', status = ''completed'', activeForm = ''A-ing''\<rparr>]"
  let ?S = "getStats (fst (snd (update ?ts ?st1)))"
  have "validate ?ts = Inr ()"
    by (simp add: validate_def inProgressCount_def check_todo_def blank_def trim_def
        is_js_space_def)
  then have accepted: "fst (update ?ts ?st1) = Inr ()"
    by (simp only: update_validate)
  have len: "length ?ts < 2 ^ 32"
    by simp
  from stats_after_accepted_update [OF accepted len]
  have "total ?S = length ?ts"
    and "completed ?S = length (filter (\<lambda>t. status t = ''completed'') ?ts)"
    and "completed ?S = total ?S \<longrightarrow> progress ?S = 100"
    by blast+
  then have "total ?S = 1 \<and> completed ?S = 1 \<and> progress ?S = 100"
    by simp
  with accepted len show ?thesis
    by (simp only: Let_def simp_thms)
qed

end
